theory Spec2Isabelle
  imports Main "HOL-Library.Word"
begin

section \<open>Bytes, exceptions and results\<close>

text \<open>
  The transport stack of \<^verbatim>\<open>GENERATOR/riden.py\<close> is embedded with explicit state passing.
  A method \<^verbatim>\<open>m(self, x)\<close> becomes a function \<open>m x st\<close> that returns a pair: the outcome
  (\<open>Inl e\<close> when the method raises \<open>e\<close>, \<open>Inr v\<close> when it returns \<open>v\<close>) and the object's
  state after the call. The state is returned in both cases, since a Python method that
  raises keeps every assignment it made before the raise.
\<close>

type_synonym byte = "8 word"
type_synonym bytes = "byte list"

text \<open>
  The exceptions that occur: \<^verbatim>\<open>EOFError\<close> (raised by \<^verbatim>\<open>readAll\<close> and by
  \<^verbatim>\<open>TMemoryBuffer.cstringio_refill\<close>), \<^verbatim>\<open>struct.error\<close> (raised by \<^verbatim>\<open>pack\<close> and
  \<^verbatim>\<open>unpack\<close>), \<^verbatim>\<open>TypeError\<close> and \<^verbatim>\<open>ValueError\<close> (raised by the byte buffer),
  \<^verbatim>\<open>TTransportException\<close> with its \<^verbatim>\<open>type\<close> field (the message text is not modelled), and
  any other exception of a collaborator.
\<close>

datatype error =
    EOFError
  | struct_error
  | TypeError
  | ValueError
  | TTransportException int
  | OtherError string

definition UNKNOWN :: int where "UNKNOWN = 0"
definition NOT_OPEN :: int where "NOT_OPEN = 1"
definition ALREADY_OPEN :: int where "ALREADY_OPEN = 2"
definition TIMED_OUT :: int where "TIMED_OUT = 3"
definition END_OF_FILE :: int where "END_OF_FILE = 4"
definition NEGATIVE_SIZE :: int where "NEGATIVE_SIZE = 5"
definition SIZE_LIMIT :: int where "SIZE_LIMIT = 6"

subsection \<open>\<^verbatim>\<open>struct.pack\<close> and \<^verbatim>\<open>struct.unpack\<close>\<close>

text \<open>
  Python's \<^verbatim>\<open>struct\<close> module, for the three formats the source uses. \<^verbatim>\<open>pack\<close> raises
  \<^verbatim>\<open>struct.error\<close> when a number does not fit its field, \<^verbatim>\<open>unpack\<close> when the buffer
  has not exactly the size of the format. \<open>be32 u\<close> is the four bytes of \<open>u\<close>, most
  significant first; \<open>be32_val\<close> reads them back as an unsigned number.
\<close>

definition be32 :: "int \<Rightarrow> bytes" where
  "be32 u = [word_of_int (u div 16777216), word_of_int (u div 65536),
             word_of_int (u div 256), word_of_int u]"

definition be32_val :: "byte \<Rightarrow> byte \<Rightarrow> byte \<Rightarrow> byte \<Rightarrow> int" where
  "be32_val a b c d = uint a * 16777216 + uint b * 65536 + uint c * 256 + uint d"

definition pack_i :: "int \<Rightarrow> error + bytes" where
  \<comment> \<open>\<^verbatim>\<open>pack("!i", n)\<close>: a signed 32-bit number in network byte order\<close>
  "pack_i n =
     (if - 2147483648 \<le> n \<and> n \<le> 2147483647 then Inr (be32 (n mod 4294967296))
      else Inl struct_error)"

definition unpack_i :: "bytes \<Rightarrow> error + int" where
  \<comment> \<open>\<^verbatim>\<open>sz, = unpack('!i', buff)\<close>\<close>
  "unpack_i buff =
     (case buff of
        [a, b, c, d] \<Rightarrow>
          (let u = be32_val a b c d
           in Inr (if 2147483648 \<le> u then u - 4294967296 else u))
      | _ \<Rightarrow> Inl struct_error)"

definition pack_BI :: "int \<Rightarrow> int \<Rightarrow> error + bytes" where
  \<comment> \<open>\<^verbatim>\<open>pack(">BI", status, n)\<close>: an unsigned byte and an unsigned 32-bit number\<close>
  "pack_BI status n =
     (if 0 \<le> status \<and> status \<le> 255 \<and> 0 \<le> n \<and> n \<le> 4294967295
      then Inr (word_of_int status # be32 n)
      else Inl struct_error)"

definition unpack_BI :: "bytes \<Rightarrow> error + int \<times> int" where
  \<comment> \<open>\<^verbatim>\<open>status, length = unpack(">BI", header)\<close>\<close>
  "unpack_BI header =
     (case header of
        [s, a, b, c, d] \<Rightarrow> Inr (uint s, be32_val a b c d)
      | _ \<Rightarrow> Inl struct_error)"

subsection \<open>The byte buffer \<^verbatim>\<open>BufferIO\<close>\<close>

text \<open>
  Modelled from the spec: \<^verbatim>\<open>BufferIO\<close> is imported from the package's \<^verbatim>\<open>compat\<close> module,
  which is not among the sources. The spec describes a read buffer as "an ordered,
  mutable, position-tracked byte sequence" whose consumed bytes "are never re-served", and
  a write buffer as "an ordered byte sequence accumulating bytes between write calls".
  The model is a byte sequence with a position, with the operations of \<^verbatim>\<open>io.BytesIO\<close>
  that the source calls: \<^verbatim>\<open>read(sz)\<close> serves at most \<open>sz\<close> bytes from the position (all
  remaining bytes for a negative \<open>sz\<close>) and advances it, \<^verbatim>\<open>write(buf)\<close> stores \<open>buf\<close> at the
  position and advances it, and raises \<^verbatim>\<open>TypeError\<close>, leaving the buffer as it was, when
  \<open>buf\<close> is not a byte string, \<^verbatim>\<open>getvalue()\<close> is the whole content whatever the position.
  Whether the buffer has been closed is kept by \<open>TMemoryBuffer\<close> below, the only class that
  closes its buffer.
\<close>

record BufferIO =
  getvalue :: bytes
  pos :: nat

definition BufferIO_new :: "bytes \<Rightarrow> BufferIO" where
  \<comment> \<open>\<^verbatim>\<open>BufferIO(value)\<close>; \<^verbatim>\<open>BufferIO()\<close> is \<open>BufferIO_new []\<close>\<close>
  "BufferIO_new v = \<lparr>getvalue = v, pos = 0\<rparr>"

definition BufferIO_read :: "int \<Rightarrow> BufferIO \<Rightarrow> bytes \<times> BufferIO" where
  "BufferIO_read sz b =
     (let rest = drop (pos b) (getvalue b);
          out = (if sz < 0 then rest else take (nat sz) rest)
      in (out, b\<lparr>pos := pos b + length out\<rparr>))"

text \<open>The argument of a \<^verbatim>\<open>write\<close> call: a byte string, or any object that is not one.\<close>

datatype pyobj = PyBytes bytes | PyOther

definition BufferIO_write :: "pyobj \<Rightarrow> BufferIO \<Rightarrow> (error + unit) \<times> BufferIO" where
  "BufferIO_write buf b =
     (case buf of
        PyOther \<Rightarrow> (Inl TypeError, b)
      | PyBytes d \<Rightarrow>
          (if d = [] then (Inr (), b)
           else (Inr (),
             \<lparr>getvalue = take (pos b) (getvalue b) @ replicate (pos b - length (getvalue b)) 0
                          @ d @ drop (pos b + length d) (getvalue b),
              pos = pos b + length d\<rparr>)))"

definition BufferIO_seek :: "nat \<Rightarrow> BufferIO \<Rightarrow> BufferIO" where
  "BufferIO_seek offset b = b\<lparr>pos := offset\<rparr>"

section \<open>The transport contract: \<^verbatim>\<open>TTransportBase\<close>\<close>

text \<open>
  A transport object is a state of some type \<open>'s\<close> together with its methods. The methods a
  subclass defines are the fields of a record; \<^verbatim>\<open>readAll\<close>, which no class of the source
  overrides, is the function of the base class over the \<^verbatim>\<open>read\<close> of the object.
\<close>

record 's TTransport =
  t_isOpen :: "'s \<Rightarrow> (error + bool) \<times> 's"
  t_open :: "'s \<Rightarrow> (error + unit) \<times> 's"
  t_close :: "'s \<Rightarrow> (error + unit) \<times> 's"
  t_read :: "int \<Rightarrow> 's \<Rightarrow> (error + bytes) \<times> 's"
  t_write :: "bytes \<Rightarrow> 's \<Rightarrow> (error + unit) \<times> 's"
  t_flush :: "'s \<Rightarrow> (error + unit) \<times> 's"

text \<open>
  \<^verbatim>\<open>readAll\<close>, lines 37 to 49. The loop variables are \<open>have\<close> and \<open>buff\<close>. The chunk is
  added to both before its length is tested, and an empty chunk raises \<^verbatim>\<open>EOFError\<close>.
  Every iteration that does not raise adds at least one byte, so the loop ends.
\<close>

function readAll_loop ::
  "'s TTransport \<Rightarrow> int \<Rightarrow> int \<Rightarrow> bytes \<Rightarrow> 's \<Rightarrow> (error + bytes) \<times> 's" where
  "readAll_loop T sz have buff s =
     (if have < sz then
        (case t_read T (sz - have) s of
           (Inl e, s') \<Rightarrow> (Inl e, s')
         | (Inr chunk, s') \<Rightarrow>
             (if length chunk = 0 then (Inl EOFError, s')
              else readAll_loop T sz (have + int (length chunk)) (buff @ chunk) s'))
      else (Inr buff, s))"
  by pat_completeness auto
termination
  by (relation "measure (\<lambda>(T, sz, have, buff, s). nat (sz - have))") auto

declare readAll_loop.simps [simp del]

definition readAll :: "'s TTransport \<Rightarrow> int \<Rightarrow> 's \<Rightarrow> (error + bytes) \<times> 's" where
  "readAll T sz s = readAll_loop T sz 0 [] s"

section \<open>\<^verbatim>\<open>TFileObjectTransport\<close>\<close>

text \<open>
  The wrapped file object is a state of type \<open>'f\<close> with the four methods the class calls.
\<close>

record 'f fileobj =
  fo_close :: "'f \<Rightarrow> (error + unit) \<times> 'f"
  fo_read :: "int \<Rightarrow> 'f \<Rightarrow> (error + bytes) \<times> 'f"
  fo_write :: "bytes \<Rightarrow> 'f \<Rightarrow> (error + unit) \<times> 'f"
  fo_flush :: "'f \<Rightarrow> (error + unit) \<times> 'f"

definition TFileObjectTransport_isOpen :: "'f \<Rightarrow> (error + bool) \<times> 'f" where
  "TFileObjectTransport_isOpen f = (Inr True, f)"

definition TFileObjectTransport_close :: "'f fileobj \<Rightarrow> 'f \<Rightarrow> (error + unit) \<times> 'f" where
  "TFileObjectTransport_close F f = fo_close F f"

definition TFileObjectTransport_read :: "'f fileobj \<Rightarrow> int \<Rightarrow> 'f \<Rightarrow> (error + bytes) \<times> 'f" where
  "TFileObjectTransport_read F sz f = fo_read F sz f"

definition TFileObjectTransport_write :: "'f fileobj \<Rightarrow> bytes \<Rightarrow> 'f \<Rightarrow> (error + unit) \<times> 'f" where
  "TFileObjectTransport_write F buf f = fo_write F buf f"

definition TFileObjectTransport_flush :: "'f fileobj \<Rightarrow> 'f \<Rightarrow> (error + unit) \<times> 'f" where
  "TFileObjectTransport_flush F f = fo_flush F f"

subsection \<open>Observing the calls a wrapper makes\<close>

text \<open>
  To state which calls reach an inner transport, and in which order, any transport \<open>T\<close>
  can be observed: \<open>traced T\<close> behaves as \<open>T\<close> does and appends every call it receives to a
  log kept beside the state of \<open>T\<close>. It is a transport like any other.
\<close>

datatype call = IsOpen | Open | Close | Read int | Write bytes | Flush

definition traced :: "'s TTransport \<Rightarrow> ('s \<times> call list) TTransport" where
  "traced T =
     \<lparr>t_isOpen = (\<lambda>(s, log). case t_isOpen T s of (r, s') \<Rightarrow> (r, (s', log @ [IsOpen]))),
      t_open = (\<lambda>(s, log). case t_open T s of (r, s') \<Rightarrow> (r, (s', log @ [Open]))),
      t_close = (\<lambda>(s, log). case t_close T s of (r, s') \<Rightarrow> (r, (s', log @ [Close]))),
      t_read = (\<lambda>sz (s, log). case t_read T sz s of (r, s') \<Rightarrow> (r, (s', log @ [Read sz]))),
      t_write = (\<lambda>buf (s, log). case t_write T buf s of (r, s') \<Rightarrow> (r, (s', log @ [Write buf]))),
      t_flush = (\<lambda>(s, log). case t_flush T s of (r, s') \<Rightarrow> (r, (s', log @ [Flush])))\<rparr>"

section \<open>\<^verbatim>\<open>TMemoryBuffer\<close>\<close>

text \<open>
  The object holds one buffer, \<^verbatim>\<open>_buffer\<close>. \<open>closed\<close> is the \<^verbatim>\<open>closed\<close> attribute of that
  buffer: \<^verbatim>\<open>close()\<close> sets it, and a closed buffer raises \<^verbatim>\<open>ValueError\<close> on \<^verbatim>\<open>read\<close>,
  \<^verbatim>\<open>write\<close> and \<^verbatim>\<open>getvalue\<close>. The constructor takes the offset as a natural number (a
  negative offset makes \<^verbatim>\<open>seek\<close> raise, and no object is built).
\<close>

record TMemoryBuffer =
  buffer :: BufferIO
  closed :: bool

definition TMemoryBuffer_init :: "bytes option \<Rightarrow> nat \<Rightarrow> TMemoryBuffer" where
  "TMemoryBuffer_init v offset =
     (let b = (case v of Some x \<Rightarrow> BufferIO_new x | None \<Rightarrow> BufferIO_new [])
      in \<lparr>buffer = (if offset \<noteq> 0 then BufferIO_seek offset b else b), closed = False\<rparr>)"

definition TMemoryBuffer_isOpen :: "TMemoryBuffer \<Rightarrow> (error + bool) \<times> TMemoryBuffer" where
  "TMemoryBuffer_isOpen m = (Inr (\<not> closed m), m)"

definition TMemoryBuffer_open :: "TMemoryBuffer \<Rightarrow> (error + unit) \<times> TMemoryBuffer" where
  "TMemoryBuffer_open m = (Inr (), m)"

definition TMemoryBuffer_close :: "TMemoryBuffer \<Rightarrow> (error + unit) \<times> TMemoryBuffer" where
  "TMemoryBuffer_close m = (Inr (), m\<lparr>closed := True\<rparr>)"

definition TMemoryBuffer_read :: "int \<Rightarrow> TMemoryBuffer \<Rightarrow> (error + bytes) \<times> TMemoryBuffer" where
  "TMemoryBuffer_read sz m =
     (if closed m then (Inl ValueError, m)
      else (case BufferIO_read sz (buffer m) of (out, b) \<Rightarrow> (Inr out, m\<lparr>buffer := b\<rparr>)))"

definition TMemoryBuffer_write :: "pyobj \<Rightarrow> TMemoryBuffer \<Rightarrow> (error + unit) \<times> TMemoryBuffer" where
  "TMemoryBuffer_write buf m =
     (if closed m then (Inl ValueError, m)
      else (case BufferIO_write buf (buffer m) of (r, b) \<Rightarrow> (r, m\<lparr>buffer := b\<rparr>)))"

definition TMemoryBuffer_flush :: "TMemoryBuffer \<Rightarrow> (error + unit) \<times> TMemoryBuffer" where
  "TMemoryBuffer_flush m = (Inr (), m)"

definition TMemoryBuffer_getvalue :: "TMemoryBuffer \<Rightarrow> error + bytes" where
  "TMemoryBuffer_getvalue m = (if closed m then Inl ValueError else Inr (getvalue (buffer m)))"

definition TMemoryBuffer_cstringio_refill ::
  "bytes \<Rightarrow> int \<Rightarrow> TMemoryBuffer \<Rightarrow> (error + BufferIO) \<times> TMemoryBuffer" where
  "TMemoryBuffer_cstringio_refill partialread reqlen m = (Inl EOFError, m)"

text \<open>A \<^verbatim>\<open>TMemoryBuffer\<close> as the inner transport of a wrapper, which writes byte strings.\<close>

definition TMemoryBuffer_transport :: "TMemoryBuffer TTransport" where
  "TMemoryBuffer_transport =
     \<lparr>t_isOpen = TMemoryBuffer_isOpen, t_open = TMemoryBuffer_open,
      t_close = TMemoryBuffer_close, t_read = TMemoryBuffer_read,
      t_write = (\<lambda>buf. TMemoryBuffer_write (PyBytes buf)), t_flush = TMemoryBuffer_flush\<rparr>"

section \<open>\<^verbatim>\<open>TBufferedTransport\<close>\<close>

text \<open>
  The fields \<^verbatim>\<open>__trans\<close>, \<^verbatim>\<open>__wbuf\<close>, \<^verbatim>\<open>__rbuf\<close> and \<^verbatim>\<open>__rbuf_size\<close>. The methods of the
  inner transport are the parameter \<open>T\<close>, its state the field \<open>b_trans\<close>.
\<close>

record 's TBufferedTransport =
  b_trans :: 's
  b_wbuf :: BufferIO
  b_rbuf :: BufferIO
  b_rbuf_size :: int

definition DEFAULT_BUFFER :: int where "DEFAULT_BUFFER = 4096"

definition TBufferedTransport_init :: "'s \<Rightarrow> int \<Rightarrow> 's TBufferedTransport" where
  "TBufferedTransport_init tr rbuf_size =
     \<lparr>b_trans = tr, b_wbuf = BufferIO_new [], b_rbuf = BufferIO_new [],
      b_rbuf_size = rbuf_size\<rparr>"

definition TBufferedTransport_isOpen ::
  "'s TTransport \<Rightarrow> 's TBufferedTransport \<Rightarrow> (error + bool) \<times> 's TBufferedTransport" where
  "TBufferedTransport_isOpen T st =
     (case t_isOpen T (b_trans st) of (r, t) \<Rightarrow> (r, st\<lparr>b_trans := t\<rparr>))"

definition TBufferedTransport_open ::
  "'s TTransport \<Rightarrow> 's TBufferedTransport \<Rightarrow> (error + unit) \<times> 's TBufferedTransport" where
  "TBufferedTransport_open T st =
     (case t_open T (b_trans st) of (r, t) \<Rightarrow> (r, st\<lparr>b_trans := t\<rparr>))"

definition TBufferedTransport_close ::
  "'s TTransport \<Rightarrow> 's TBufferedTransport \<Rightarrow> (error + unit) \<times> 's TBufferedTransport" where
  "TBufferedTransport_close T st =
     (case t_close T (b_trans st) of (r, t) \<Rightarrow> (r, st\<lparr>b_trans := t\<rparr>))"

definition TBufferedTransport_read ::
  "'s TTransport \<Rightarrow> int \<Rightarrow> 's TBufferedTransport \<Rightarrow> (error + bytes) \<times> 's TBufferedTransport" where
  "TBufferedTransport_read T sz st =
     (case BufferIO_read sz (b_rbuf st) of
        (ret, rb) \<Rightarrow>
          (let st1 = st\<lparr>b_rbuf := rb\<rparr>
           in if length ret \<noteq> 0 then (Inr ret, st1)
              else (case t_read T (max sz (b_rbuf_size st1)) (b_trans st1) of
                      (Inl e, t) \<Rightarrow> (Inl e, st1\<lparr>b_trans := t\<rparr>)
                    | (Inr chunk, t) \<Rightarrow>
                        (case BufferIO_read sz (BufferIO_new chunk) of
                           (ret2, rb2) \<Rightarrow> (Inr ret2, st1\<lparr>b_trans := t, b_rbuf := rb2\<rparr>)))))"

definition TBufferedTransport_write ::
  "pyobj \<Rightarrow> 's TBufferedTransport \<Rightarrow> (error + unit) \<times> 's TBufferedTransport" where
  "TBufferedTransport_write buf st =
     (case BufferIO_write buf (b_wbuf st) of
        (Inl e, w) \<Rightarrow> (Inl e, st\<lparr>b_wbuf := BufferIO_new []\<rparr>)
      | (Inr u, w) \<Rightarrow> (Inr (), st\<lparr>b_wbuf := w\<rparr>))"

definition TBufferedTransport_flush ::
  "'s TTransport \<Rightarrow> 's TBufferedTransport \<Rightarrow> (error + unit) \<times> 's TBufferedTransport" where
  "TBufferedTransport_flush T st =
     (let out = getvalue (b_wbuf st);
          st1 = st\<lparr>b_wbuf := BufferIO_new []\<rparr>
      in case t_write T out (b_trans st1) of
           (Inl e, t) \<Rightarrow> (Inl e, st1\<lparr>b_trans := t\<rparr>)
         | (Inr u, t) \<Rightarrow> (case t_flush T t of (r, t') \<Rightarrow> (r, st1\<lparr>b_trans := t'\<rparr>)))"

text \<open>
  \<^verbatim>\<open>cstringio_refill\<close>, lines 155 to 164: \<open>retstring\<close> grows by one \<^verbatim>\<open>read\<close> when \<open>reqlen\<close>
  is below the buffer size, and by a \<^verbatim>\<open>readAll\<close> of what is still missing.
\<close>

definition TBufferedTransport_cstringio_refill ::
  "'s TTransport \<Rightarrow> bytes \<Rightarrow> int \<Rightarrow> 's TBufferedTransport
     \<Rightarrow> (error + BufferIO) \<times> 's TBufferedTransport" where
  "TBufferedTransport_cstringio_refill T partialread reqlen st =
     (case (if reqlen < b_rbuf_size st then
              (case t_read T (b_rbuf_size st) (b_trans st) of
                 (Inl e, t) \<Rightarrow> (Inl e, t)
               | (Inr chunk, t) \<Rightarrow> (Inr (partialread @ chunk), t))
            else (Inr partialread, b_trans st)) of
        (Inl e, t) \<Rightarrow> (Inl e, st\<lparr>b_trans := t\<rparr>)
      | (Inr retstring, t) \<Rightarrow>
          (case (if int (length retstring) < reqlen then
                   (case readAll T (reqlen - int (length retstring)) t of
                      (Inl e, t') \<Rightarrow> (Inl e, t')
                    | (Inr missing, t') \<Rightarrow> (Inr (retstring @ missing), t'))
                 else (Inr retstring, t)) of
             (Inl e, t') \<Rightarrow> (Inl e, st\<lparr>b_trans := t'\<rparr>)
           | (Inr retstring', t') \<Rightarrow>
               (Inr (BufferIO_new retstring'),
                st\<lparr>b_trans := t', b_rbuf := BufferIO_new retstring'\<rparr>)))"

text \<open>A run of \<^verbatim>\<open>write\<close> calls, one for each byte string of a list; it stops where one raises.\<close>

fun TBufferedTransport_writes ::
  "bytes list \<Rightarrow> 's TBufferedTransport \<Rightarrow> (error + unit) \<times> 's TBufferedTransport" where
  "TBufferedTransport_writes [] st = (Inr (), st)"
| "TBufferedTransport_writes (buf # bufs) st =
     (case TBufferedTransport_write (PyBytes buf) st of
        (Inl e, st') \<Rightarrow> (Inl e, st')
      | (Inr u, st') \<Rightarrow> TBufferedTransport_writes bufs st')"

section \<open>\<^verbatim>\<open>TFramedTransport\<close>\<close>

record 's TFramedTransport =
  f_trans :: 's
  f_rbuf :: BufferIO
  f_wbuf :: BufferIO

definition TFramedTransport_init :: "'s \<Rightarrow> 's TFramedTransport" where
  "TFramedTransport_init tr =
     \<lparr>f_trans = tr, f_rbuf = BufferIO_new [], f_wbuf = BufferIO_new []\<rparr>"

definition TFramedTransport_isOpen ::
  "'s TTransport \<Rightarrow> 's TFramedTransport \<Rightarrow> (error + bool) \<times> 's TFramedTransport" where
  "TFramedTransport_isOpen T st =
     (case t_isOpen T (f_trans st) of (r, t) \<Rightarrow> (r, st\<lparr>f_trans := t\<rparr>))"

definition TFramedTransport_open ::
  "'s TTransport \<Rightarrow> 's TFramedTransport \<Rightarrow> (error + unit) \<times> 's TFramedTransport" where
  "TFramedTransport_open T st =
     (case t_open T (f_trans st) of (r, t) \<Rightarrow> (r, st\<lparr>f_trans := t\<rparr>))"

definition TFramedTransport_close ::
  "'s TTransport \<Rightarrow> 's TFramedTransport \<Rightarrow> (error + unit) \<times> 's TFramedTransport" where
  "TFramedTransport_close T st =
     (case t_close T (f_trans st) of (r, t) \<Rightarrow> (r, st\<lparr>f_trans := t\<rparr>))"

definition TFramedTransport_readFrame ::
  "'s TTransport \<Rightarrow> 's TFramedTransport \<Rightarrow> (error + unit) \<times> 's TFramedTransport" where
  "TFramedTransport_readFrame T st =
     (case readAll T 4 (f_trans st) of
        (Inl e, t) \<Rightarrow> (Inl e, st\<lparr>f_trans := t\<rparr>)
      | (Inr buff, t) \<Rightarrow>
          (case unpack_i buff of
             Inl e \<Rightarrow> (Inl e, st\<lparr>f_trans := t\<rparr>)
           | Inr sz \<Rightarrow>
               (case readAll T sz t of
                  (Inl e, t') \<Rightarrow> (Inl e, st\<lparr>f_trans := t'\<rparr>)
                | (Inr payload, t') \<Rightarrow>
                    (Inr (), st\<lparr>f_trans := t', f_rbuf := BufferIO_new payload\<rparr>))))"

definition TFramedTransport_read ::
  "'s TTransport \<Rightarrow> int \<Rightarrow> 's TFramedTransport \<Rightarrow> (error + bytes) \<times> 's TFramedTransport" where
  "TFramedTransport_read T sz st =
     (case BufferIO_read sz (f_rbuf st) of
        (ret, rb) \<Rightarrow>
          (let st1 = st\<lparr>f_rbuf := rb\<rparr>
           in if length ret \<noteq> 0 then (Inr ret, st1)
              else (case TFramedTransport_readFrame T st1 of
                      (Inl e, st2) \<Rightarrow> (Inl e, st2)
                    | (Inr u, st2) \<Rightarrow>
                        (case BufferIO_read sz (f_rbuf st2) of
                           (ret2, rb2) \<Rightarrow> (Inr ret2, st2\<lparr>f_rbuf := rb2\<rparr>)))))"

definition TFramedTransport_write ::
  "pyobj \<Rightarrow> 's TFramedTransport \<Rightarrow> (error + unit) \<times> 's TFramedTransport" where
  "TFramedTransport_write buf st =
     (case BufferIO_write buf (f_wbuf st) of (r, w) \<Rightarrow> (r, st\<lparr>f_wbuf := w\<rparr>))"

definition TFramedTransport_flush ::
  "'s TTransport \<Rightarrow> 's TFramedTransport \<Rightarrow> (error + unit) \<times> 's TFramedTransport" where
  "TFramedTransport_flush T st =
     (let wout = getvalue (f_wbuf st);
          wsz = int (length wout);
          st1 = st\<lparr>f_wbuf := BufferIO_new []\<rparr>
      in case pack_i wsz of
           Inl e \<Rightarrow> (Inl e, st1)
         | Inr hdr \<Rightarrow>
             (case t_write T (hdr @ wout) (f_trans st1) of
                (Inl e, t) \<Rightarrow> (Inl e, st1\<lparr>f_trans := t\<rparr>)
              | (Inr u, t) \<Rightarrow> (case t_flush T t of (r, t') \<Rightarrow> (r, st1\<lparr>f_trans := t'\<rparr>))))"

text \<open>
  \<^verbatim>\<open>cstringio_refill\<close>, lines 270 to 275. The loop reads frames until the prefix is long
  enough; on an inner transport that keeps delivering empty frames it never ends, so the
  function is partial: \<open>None\<close> is a call that does not return.
\<close>

partial_function (option) TFramedTransport_cstringio_refill ::
  "'s TTransport \<Rightarrow> bytes \<Rightarrow> int \<Rightarrow> 's TFramedTransport
     \<Rightarrow> ((error + BufferIO) \<times> 's TFramedTransport) option" where
  "TFramedTransport_cstringio_refill T prefix reqlen st =
     (if int (length prefix) < reqlen then
        (case TFramedTransport_readFrame T st of
           (Inl e, st') \<Rightarrow> Some (Inl e, st')
         | (Inr u, st') \<Rightarrow>
             TFramedTransport_cstringio_refill T (prefix @ getvalue (f_rbuf st')) reqlen st')
      else Some (Inr (BufferIO_new prefix), st\<lparr>f_rbuf := BufferIO_new prefix\<rparr>))"

section \<open>\<^verbatim>\<open>TSaslClientTransport\<close>\<close>

text \<open>
  The authentication capability is \<^verbatim>\<open>puresasl.client.SASLClient\<close>, a library outside the
  repository: it is a parameter, a state of type \<open>'a\<close> with the members the class uses.
  Each method may raise and may change the capability's state. What the capability takes
  and returns are byte strings, and the empty payload of \<^verbatim>\<open>recv_sasl_msg\<close> is the empty
  string.
\<close>

record 'a SASLClient =
  sasl_mechanism :: "'a \<Rightarrow> bytes"
  sasl_process :: "bytes option \<Rightarrow> 'a \<Rightarrow> (error + bytes) \<times> 'a"
  sasl_complete :: "'a \<Rightarrow> bool"
  sasl_wrap :: "bytes \<Rightarrow> 'a \<Rightarrow> (error + bytes) \<times> 'a"
  sasl_unwrap :: "bytes \<Rightarrow> 'a \<Rightarrow> (error + bytes) \<times> 'a"
  sasl_dispose :: "'a \<Rightarrow> (error + unit) \<times> 'a"

record ('s, 'a) TSaslClientTransport =
  transport :: 's
  sasl :: 'a
  s_wbuf :: BufferIO
  s_rbuf :: BufferIO

definition START :: int where "START = 1"
definition OK :: int where "OK = 2"
definition BAD :: int where "BAD = 3"
definition ERROR :: int where "ERROR = 4"
definition COMPLETE :: int where "COMPLETE = 5"

definition TSaslClientTransport_init :: "'s \<Rightarrow> 'a \<Rightarrow> ('s, 'a) TSaslClientTransport" where
  "TSaslClientTransport_init tr a =
     \<lparr>transport = tr, sasl = a, s_wbuf = BufferIO_new [], s_rbuf = BufferIO_new []\<rparr>"

definition send_sasl_msg ::
  "'s TTransport \<Rightarrow> int \<Rightarrow> bytes \<Rightarrow> ('s, 'a) TSaslClientTransport
     \<Rightarrow> (error + unit) \<times> ('s, 'a) TSaslClientTransport" where
  "send_sasl_msg T status body st =
     (case pack_BI status (int (length body)) of
        Inl e \<Rightarrow> (Inl e, st)
      | Inr header \<Rightarrow>
          (case t_write T (header @ body) (transport st) of
             (Inl e, t) \<Rightarrow> (Inl e, st\<lparr>transport := t\<rparr>)
           | (Inr u, t) \<Rightarrow> (case t_flush T t of (r, t') \<Rightarrow> (r, st\<lparr>transport := t'\<rparr>))))"

definition recv_sasl_msg ::
  "'s TTransport \<Rightarrow> ('s, 'a) TSaslClientTransport
     \<Rightarrow> (error + int \<times> bytes) \<times> ('s, 'a) TSaslClientTransport" where
  "recv_sasl_msg T st =
     (case readAll T 5 (transport st) of
        (Inl e, t) \<Rightarrow> (Inl e, st\<lparr>transport := t\<rparr>)
      | (Inr header, t) \<Rightarrow>
          (case unpack_BI header of
             Inl e \<Rightarrow> (Inl e, st\<lparr>transport := t\<rparr>)
           | Inr (status, len) \<Rightarrow>
               (if len > 0 then
                  (case readAll T len t of
                     (Inl e, t') \<Rightarrow> (Inl e, st\<lparr>transport := t'\<rparr>)
                   | (Inr payload, t') \<Rightarrow> (Inr (status, payload), st\<lparr>transport := t'\<rparr>))
                else (Inr (status, []), st\<lparr>transport := t\<rparr>))))"

text \<open>
  \<^verbatim>\<open>open\<close>, lines 331 to 354, in two parts: the statements before the loop, and the loop.
  The loop runs as long as the peer answers \<^verbatim>\<open>OK\<close>, which may be forever: it is a partial
  function, \<open>None\<close> being a call that does not return.
\<close>

definition TSaslClientTransport_open_start ::
  "'s TTransport \<Rightarrow> 'a SASLClient \<Rightarrow> ('s, 'a) TSaslClientTransport
     \<Rightarrow> (error + unit) \<times> ('s, 'a) TSaslClientTransport" where
  "TSaslClientTransport_open_start T S st =
     (case t_isOpen T (transport st) of
        (Inl e, t) \<Rightarrow> (Inl e, st\<lparr>transport := t\<rparr>)
      | (Inr is_open, t) \<Rightarrow>
          (case (if \<not> is_open then t_open T t else (Inr (), t)) of
             (Inl e, t1) \<Rightarrow> (Inl e, st\<lparr>transport := t1\<rparr>)
           | (Inr u, t1) \<Rightarrow>
               (let st1 = st\<lparr>transport := t1\<rparr>
                in case send_sasl_msg T START (sasl_mechanism S (sasl st1)) st1 of
                     (Inl e, st2) \<Rightarrow> (Inl e, st2)
                   | (Inr u, st2) \<Rightarrow>
                       (case sasl_process S None (sasl st2) of
                          (Inl e, a) \<Rightarrow> (Inl e, st2\<lparr>sasl := a\<rparr>)
                        | (Inr token, a) \<Rightarrow> send_sasl_msg T OK token (st2\<lparr>sasl := a\<rparr>)))))"

partial_function (option) TSaslClientTransport_open_loop ::
  "'s TTransport \<Rightarrow> 'a SASLClient \<Rightarrow> ('s, 'a) TSaslClientTransport
     \<Rightarrow> ((error + unit) \<times> ('s, 'a) TSaslClientTransport) option" where
  "TSaslClientTransport_open_loop T S st =
     (case recv_sasl_msg T st of
        (Inl e, st1) \<Rightarrow> Some (Inl e, st1)
      | (Inr (status, challenge), st1) \<Rightarrow>
          (if status = OK then
             (case sasl_process S (Some challenge) (sasl st1) of
                (Inl e, a) \<Rightarrow> Some (Inl e, st1\<lparr>sasl := a\<rparr>)
              | (Inr response, a) \<Rightarrow>
                  (case send_sasl_msg T OK response (st1\<lparr>sasl := a\<rparr>) of
                     (Inl e, st2) \<Rightarrow> Some (Inl e, st2)
                   | (Inr u, st2) \<Rightarrow> TSaslClientTransport_open_loop T S st2))
           else if status = COMPLETE then
             (if \<not> sasl_complete S (sasl st1)
              then Some (Inl (TTransportException NOT_OPEN), st1)
              else Some (Inr (), st1))
           else Some (Inl (TTransportException NOT_OPEN), st1)))"

definition TSaslClientTransport_open ::
  "'s TTransport \<Rightarrow> 'a SASLClient \<Rightarrow> ('s, 'a) TSaslClientTransport
     \<Rightarrow> ((error + unit) \<times> ('s, 'a) TSaslClientTransport) option" where
  "TSaslClientTransport_open T S st =
     (case TSaslClientTransport_open_start T S st of
        (Inl e, st') \<Rightarrow> Some (Inl e, st')
      | (Inr u, st') \<Rightarrow> TSaslClientTransport_open_loop T S st')"

definition TSaslClientTransport_write ::
  "pyobj \<Rightarrow> ('s, 'a) TSaslClientTransport \<Rightarrow> (error + unit) \<times> ('s, 'a) TSaslClientTransport" where
  "TSaslClientTransport_write data st =
     (case BufferIO_write data (s_wbuf st) of (r, w) \<Rightarrow> (r, st\<lparr>s_wbuf := w\<rparr>))"

text \<open>
  Line 376 builds what \<^verbatim>\<open>flush\<close> writes with \<^verbatim>\<open>''.join((pack("!i", len(encoded)), encoded))\<close>.
  The separator is a text string and \<^verbatim>\<open>pack\<close> returns a byte string: on Python 3, where
  the two are different types, \<^verbatim>\<open>join\<close> raises \<^verbatim>\<open>TypeError\<close> at the first item of the sequence.
  \<open>str_join\<close> is \<^verbatim>\<open>''.join\<close> on a sequence of byte strings: only the empty sequence is
  joined.
\<close>

definition str_join :: "bytes list \<Rightarrow> error + bytes" where
  "str_join items = (case items of [] \<Rightarrow> Inr [] | item # rest \<Rightarrow> Inl TypeError)"

definition TSaslClientTransport_flush ::
  "'s TTransport \<Rightarrow> 'a SASLClient \<Rightarrow> ('s, 'a) TSaslClientTransport
     \<Rightarrow> (error + unit) \<times> ('s, 'a) TSaslClientTransport" where
  "TSaslClientTransport_flush T S st =
     (let data = getvalue (s_wbuf st)
      in case sasl_wrap S data (sasl st) of
           (Inl e, a) \<Rightarrow> (Inl e, st\<lparr>sasl := a\<rparr>)
         | (Inr encoded, a) \<Rightarrow>
             (let st1 = st\<lparr>sasl := a\<rparr>
              in case pack_i (int (length encoded)) of
                   Inl e \<Rightarrow> (Inl e, st1)
                 | Inr hdr \<Rightarrow>
                     (case str_join [hdr, encoded] of
                        Inl e \<Rightarrow> (Inl e, st1)
                      | Inr buf \<Rightarrow>
                          (case t_write T buf (transport st1) of
                             (Inl e, t) \<Rightarrow> (Inl e, st1\<lparr>transport := t\<rparr>)
                           | (Inr u, t) \<Rightarrow>
                               (case t_flush T t of
                                  (Inl e, t') \<Rightarrow> (Inl e, st1\<lparr>transport := t'\<rparr>)
                                | (Inr u, t') \<Rightarrow>
                                    (Inr (), st1\<lparr>transport := t', s_wbuf := BufferIO_new []\<rparr>))))))"

definition TSaslClientTransport_read_frame ::
  "'s TTransport \<Rightarrow> 'a SASLClient \<Rightarrow> ('s, 'a) TSaslClientTransport
     \<Rightarrow> (error + unit) \<times> ('s, 'a) TSaslClientTransport" where
  "TSaslClientTransport_read_frame T S st =
     (case readAll T 4 (transport st) of
        (Inl e, t) \<Rightarrow> (Inl e, st\<lparr>transport := t\<rparr>)
      | (Inr header, t) \<Rightarrow>
          (case unpack_i header of
             Inl e \<Rightarrow> (Inl e, st\<lparr>transport := t\<rparr>)
           | Inr len \<Rightarrow>
               (case readAll T len t of
                  (Inl e, t') \<Rightarrow> (Inl e, st\<lparr>transport := t'\<rparr>)
                | (Inr encoded, t') \<Rightarrow>
                    (case sasl_unwrap S encoded (sasl st) of
                       (Inl e, a) \<Rightarrow> (Inl e, st\<lparr>transport := t', sasl := a\<rparr>)
                     | (Inr data, a) \<Rightarrow>
                         (Inr (), st\<lparr>transport := t', sasl := a, s_rbuf := BufferIO_new data\<rparr>)))))"

definition TSaslClientTransport_read ::
  "'s TTransport \<Rightarrow> 'a SASLClient \<Rightarrow> int \<Rightarrow> ('s, 'a) TSaslClientTransport
     \<Rightarrow> (error + bytes) \<times> ('s, 'a) TSaslClientTransport" where
  "TSaslClientTransport_read T S sz st =
     (case BufferIO_read sz (s_rbuf st) of
        (ret, rb) \<Rightarrow>
          (let st1 = st\<lparr>s_rbuf := rb\<rparr>
           in if length ret \<noteq> 0 then (Inr ret, st1)
              else (case TSaslClientTransport_read_frame T S st1 of
                      (Inl e, st2) \<Rightarrow> (Inl e, st2)
                    | (Inr u, st2) \<Rightarrow>
                        (case BufferIO_read sz (s_rbuf st2) of
                           (ret2, rb2) \<Rightarrow> (Inr ret2, st2\<lparr>s_rbuf := rb2\<rparr>)))))"

definition TSaslClientTransport_close ::
  "'s TTransport \<Rightarrow> 'a SASLClient \<Rightarrow> ('s, 'a) TSaslClientTransport
     \<Rightarrow> (error + unit) \<times> ('s, 'a) TSaslClientTransport" where
  "TSaslClientTransport_close T S st =
     (case sasl_dispose S (sasl st) of
        (Inl e, a) \<Rightarrow> (Inl e, st\<lparr>sasl := a\<rparr>)
      | (Inr u, a) \<Rightarrow>
          (case t_close T (transport st) of (r, t) \<Rightarrow> (r, st\<lparr>sasl := a, transport := t\<rparr>)))"

partial_function (option) TSaslClientTransport_cstringio_refill ::
  "'s TTransport \<Rightarrow> 'a SASLClient \<Rightarrow> bytes \<Rightarrow> int \<Rightarrow> ('s, 'a) TSaslClientTransport
     \<Rightarrow> ((error + BufferIO) \<times> ('s, 'a) TSaslClientTransport) option" where
  "TSaslClientTransport_cstringio_refill T S prefix reqlen st =
     (if int (length prefix) < reqlen then
        (case TSaslClientTransport_read_frame T S st of
           (Inl e, st') \<Rightarrow> Some (Inl e, st')
         | (Inr u, st') \<Rightarrow>
             TSaslClientTransport_cstringio_refill T S (prefix @ getvalue (s_rbuf st')) reqlen st')
      else Some (Inr (BufferIO_new prefix), st\<lparr>s_rbuf := BufferIO_new prefix\<rparr>))"

section \<open>Runs of calls and the byte channel\<close>

text \<open>
  \<open>read_seq T n s chunks s'\<close>: from state \<open>s\<close>, with \<open>n\<close> bytes still wanted, successive
  \<^verbatim>\<open>read\<close> calls, each asking for the bytes still wanted, return the chunks \<open>chunks\<close> in
  this order and leave the transport in \<open>s'\<close>.
\<close>

inductive read_seq :: "'s TTransport \<Rightarrow> int \<Rightarrow> 's \<Rightarrow> bytes list \<Rightarrow> 's \<Rightarrow> bool"
  for T :: "'s TTransport" where
  read_seq_Nil: "read_seq T n s [] s"
| read_seq_Cons:
    "t_read T n s = (Inr chunk, s1) \<Longrightarrow> read_seq T (n - int (length chunk)) s1 chunks s'
     \<Longrightarrow> read_seq T n s (chunk # chunks) s'"

text \<open>
  The assumption on the \<^verbatim>\<open>read\<close> of a transport under which \<^verbatim>\<open>readAll\<close> is specified:
  in the states \<open>I\<close> the transport is used in, \<^verbatim>\<open>read(k)\<close> returns, and returns at most \<open>k\<close>
  bytes.
\<close>

definition reads_at_most :: "'s TTransport \<Rightarrow> ('s \<Rightarrow> bool) \<Rightarrow> bool" where
  "reads_at_most T I \<longleftrightarrow>
     (\<forall>s k. I s \<and> 0 < k \<longrightarrow>
        (\<exists>chunk s'. t_read T k s = (Inr chunk, s') \<and> int (length chunk) \<le> k \<and> I s'))"

text \<open>
  A byte channel, seen from its two ends. The reading end is a transport \<open>T\<close> with a
  relation \<open>R\<close>: \<open>R s p\<close> says that in state \<open>s\<close> the bytes still to be delivered are \<open>p\<close>.
  A \<^verbatim>\<open>read(k)\<close> returns a beginning of \<open>p\<close> of at most \<open>k\<close> bytes, possibly fewer than
  are there (a short read), but at least one byte as long as there is one; what remains
  to be delivered is the rest of \<open>p\<close>. The writing end is a transport with a relation \<open>W\<close>:
  \<open>W s b\<close> says that the bytes written so far are \<open>b\<close>; \<^verbatim>\<open>write\<close> appends, \<^verbatim>\<open>flush\<close>
  keeps them.
\<close>

definition byte_source :: "'s TTransport \<Rightarrow> ('s \<Rightarrow> bytes \<Rightarrow> bool) \<Rightarrow> bool" where
  "byte_source T R \<longleftrightarrow>
     (\<forall>s p k. R s p \<and> 0 < k \<longrightarrow>
        (\<exists>n s'. t_read T k s = (Inr (take n p), s') \<and> n \<le> length p \<and> int n \<le> k \<and>
                (p \<noteq> [] \<longrightarrow> 0 < n) \<and> R s' (drop n p)))"

definition byte_sink :: "'s TTransport \<Rightarrow> ('s \<Rightarrow> bytes \<Rightarrow> bool) \<Rightarrow> bool" where
  "byte_sink T W \<longleftrightarrow>
     (\<forall>s b. W s b \<longrightarrow>
        (\<forall>d. \<exists>s'. t_write T d s = (Inr (), s') \<and> W s' (b @ d)) \<and>
        (\<exists>s'. t_flush T s = (Inr (), s') \<and> W s' b))"

text \<open>
  An open \<^verbatim>\<open>TMemoryBuffer\<close> is both: built from a value it delivers the bytes from its
  position on, built empty it collects what is written.
\<close>

definition TMemoryBuffer_pending :: "TMemoryBuffer \<Rightarrow> bytes \<Rightarrow> bool" where
  "TMemoryBuffer_pending m p \<longleftrightarrow>
     \<not> closed m \<and> p = drop (pos (buffer m)) (getvalue (buffer m))"

definition TMemoryBuffer_written :: "TMemoryBuffer \<Rightarrow> bytes \<Rightarrow> bool" where
  "TMemoryBuffer_written m b \<longleftrightarrow>
     \<not> closed m \<and> getvalue (buffer m) = b \<and> pos (buffer m) = length b"

text \<open>
  The frame envelope of the wire format: four bytes of length, most significant first,
  then the payload. \<open>cut_off tail\<close>: the stream ends with \<open>tail\<close>, which is nothing or the
  beginning of a frame that is not complete.
\<close>

definition frame :: "bytes \<Rightarrow> bytes" where
  "frame payload = be32 (int (length payload)) @ payload"

definition cut_off :: "bytes \<Rightarrow> bool" where
  "cut_off tail \<longleftrightarrow>
     (\<exists>payload missing. length payload < 2147483648 \<and> missing \<noteq> [] \<and>
        tail @ missing = frame payload)"

text \<open>
  The two ends of a round trip through \<^verbatim>\<open>TFramedTransport\<close>. The writer sends each message
  of a list by \<^verbatim>\<open>write\<close> followed by \<^verbatim>\<open>flush\<close>, and stops where a call raises. The reader
  calls \<^verbatim>\<open>read(sz)\<close> and collects what it returns, until \<^verbatim>\<open>read\<close> raises: \<^verbatim>\<open>EOFError\<close> ends
  the reading with the bytes collected, any other exception is passed on. On an inner
  transport that never ends the reader never returns (\<open>None\<close>).
\<close>

fun send_all ::
  "'s TTransport \<Rightarrow> bytes list \<Rightarrow> 's TFramedTransport \<Rightarrow> (error + unit) \<times> 's TFramedTransport" where
  "send_all T [] st = (Inr (), st)"
| "send_all T (m # ms) st =
     (case TFramedTransport_write (PyBytes m) st of
        (Inl e, st1) \<Rightarrow> (Inl e, st1)
      | (Inr u, st1) \<Rightarrow>
          (case TFramedTransport_flush T st1 of
             (Inl e, st2) \<Rightarrow> (Inl e, st2)
           | (Inr u, st2) \<Rightarrow> send_all T ms st2))"

partial_function (option) read_until_EOF ::
  "'s TTransport \<Rightarrow> int \<Rightarrow> bytes \<Rightarrow> 's TFramedTransport
     \<Rightarrow> ((error + bytes) \<times> 's TFramedTransport) option" where
  "read_until_EOF T sz acc st =
     (case TFramedTransport_read T sz st of
        (Inl e, st') \<Rightarrow> (if e = EOFError then Some (Inr acc, st') else Some (Inl e, st'))
      | (Inr ret, st') \<Rightarrow> read_until_EOF T sz (acc @ ret) st')"

text \<open>
  What \<^verbatim>\<open>cstringio_refill\<close> is to compute, in the words of its description, on the
  payloads of the frames that the inner transport still holds: as long as the prefix is
  shorter than \<open>reqlen\<close>, the payload of the next frame is appended to it; when no frame is
  left, the refill fails with \<^verbatim>\<open>EOFError\<close>. The result is the new content of the read
  buffer and the frames not yet read. For \<^verbatim>\<open>TSaslClientTransport\<close> each payload is
  un-wrapped first, by a capability that has a state of its own and may raise.
\<close>

fun spec_refill :: "bytes \<Rightarrow> int \<Rightarrow> bytes list \<Rightarrow> error + bytes \<times> bytes list" where
  "spec_refill prefix reqlen [] =
     (if reqlen \<le> int (length prefix) then Inr (prefix, []) else Inl EOFError)"
| "spec_refill prefix reqlen (payload # rest) =
     (if reqlen \<le> int (length prefix) then Inr (prefix, payload # rest)
      else spec_refill (prefix @ payload) reqlen rest)"

fun spec_refill_unwrap ::
  "'a SASLClient \<Rightarrow> bytes \<Rightarrow> int \<Rightarrow> bytes list \<Rightarrow> 'a \<Rightarrow> (error + bytes \<times> bytes list) \<times> 'a" where
  "spec_refill_unwrap S prefix reqlen [] a =
     (if reqlen \<le> int (length prefix) then (Inr (prefix, []), a) else (Inl EOFError, a))"
| "spec_refill_unwrap S prefix reqlen (encoded # rest) a =
     (if reqlen \<le> int (length prefix) then (Inr (prefix, encoded # rest), a)
      else (case sasl_unwrap S encoded a of
              (Inl e, a') \<Rightarrow> (Inl e, a')
            | (Inr payload, a') \<Rightarrow> spec_refill_unwrap S (prefix @ payload) reqlen rest a'))"

text \<open>
  The handshake of \<^verbatim>\<open>TSaslClientTransport.open\<close>. \<open>handshake_rounds T S st st'\<close>: the loop,
  entered in state \<open>st\<close>, runs some iterations, each of which receives status \<^verbatim>\<open>OK\<close>
  and sends the response of the capability, and is at its head again in state \<open>st'\<close>.
  \<open>handshake_call c\<close>: the call \<open>c\<close> on the inner transport is no \<^verbatim>\<open>write\<close>, or it writes
  one handshake message, that is a status byte \<^verbatim>\<open>START\<close> or \<^verbatim>\<open>OK\<close>, the length of
  the body in four bytes, and the body.
\<close>

inductive handshake_rounds ::
  "'s TTransport \<Rightarrow> 'a SASLClient \<Rightarrow> ('s, 'a) TSaslClientTransport
     \<Rightarrow> ('s, 'a) TSaslClientTransport \<Rightarrow> bool"
  for T :: "'s TTransport" and S :: "'a SASLClient" where
  rounds_none: "handshake_rounds T S st st"
| rounds_OK:
    "recv_sasl_msg T st = (Inr (OK, challenge), st1) \<Longrightarrow>
     sasl_process S (Some challenge) (sasl st1) = (Inr response, a) \<Longrightarrow>
     send_sasl_msg T OK response (st1\<lparr>sasl := a\<rparr>) = (Inr (), st2) \<Longrightarrow>
     handshake_rounds T S st2 st3 \<Longrightarrow>
     handshake_rounds T S st st3"

fun handshake_call :: "call \<Rightarrow> bool" where
  "handshake_call (Write buf) =
     (case buf of
        s # a # b # c # d # body \<Rightarrow>
          (uint s = START \<or> uint s = OK) \<and> be32_val a b c d = int (length body)
      | _ \<Rightarrow> False)"
| "handshake_call c = True"

text \<open>A capability for examples: it wraps nothing, and never completes.\<close>

definition plain_sasl :: "unit SASLClient" where
  "plain_sasl =
     \<lparr>sasl_mechanism = (\<lambda>a. []), sasl_process = (\<lambda>c a. (Inr [], a)),
      sasl_complete = (\<lambda>a. False), sasl_wrap = (\<lambda>d a. (Inr d, a)),
      sasl_unwrap = (\<lambda>d a. (Inr d, a)), sasl_dispose = (\<lambda>a. (Inr (), a))\<rparr>"

text \<open>
  \<open>extends_by_handshake log log'\<close>: the log of calls \<open>log'\<close> is \<open>log\<close> followed by calls of
  the handshake only.
\<close>

definition extends_by_handshake :: "call list \<Rightarrow> call list \<Rightarrow> bool" where
  "extends_by_handshake log log' \<longleftrightarrow> (\<exists>new. log' = log @ new \<and> list_all handshake_call new)"

section \<open>Properties\<close>

subsection \<open>Packing and unpacking lengths\<close>

lemma length_be32 [simp]: "length (be32 u) = 4"
  by (simp add: be32_def)

lemma be32_0: "be32 0 = [0, 0, 0, 0]"
  by (simp add: be32_def)

lemma be32_val_be32:
  assumes "0 \<le> u" "u < 4294967296"
  shows "(case be32 u of [a, b, c, d] \<Rightarrow> be32_val a b c d | _ \<Rightarrow> -1) = u"
proof -
  have m: "uint (word_of_int k :: byte) = k mod 256" for k
    by (simp add: uint_word_of_int)
  have d2: "u div 65536 = u div 256 div 256"
    using zdiv_zmult2_eq[of 256 u 256] by simp
  have d3: "u div 16777216 = u div 256 div 256 div 256"
    using zdiv_zmult2_eq[of 256 "u div 256" 256] zdiv_zmult2_eq[of 65536 u 256] by simp
  have e1: "u = 256 * (u div 256) + u mod 256" by simp
  have e2: "u div 256 = 256 * (u div 256 div 256) + u div 256 mod 256" by simp
  have e3: "u div 256 div 256 = 256 * (u div 256 div 256 div 256) + u div 256 div 256 mod 256"
    by simp
  have "u div 16777216 < 256" "0 \<le> u div 16777216" using assms by auto
  then have e4: "u div 256 div 256 div 256 mod 256 = u div 256 div 256 div 256"
    unfolding d3 by simp
  have "(u div 256 div 256 div 256) * 16777216 + (u div 256 div 256 mod 256) * 65536
        + (u div 256 mod 256) * 256 + u mod 256 = u"
    using e1 e2 e3 by linarith
  then show ?thesis
    unfolding be32_def be32_val_def by (simp add: m d2 d3 e4)
qed

lemma unpack_i_be32:
  assumes "0 \<le> n" "n < 2147483648"
  shows "unpack_i (be32 n) = Inr n"
proof -
  have "(case be32 n of [a, b, c, d] \<Rightarrow> be32_val a b c d | _ \<Rightarrow> -1) = n"
    using assms by (intro be32_val_be32) auto
  then show ?thesis using assms
    by (simp add: unpack_i_def be32_def)
qed

lemma pack_i_nonneg:
  assumes "0 \<le> n" "n < 2147483648"
  shows "pack_i n = Inr (be32 n)"
  using assms by (simp add: pack_i_def)

lemma pack_i_examples:
  "pack_i 4 = Inr [0, 0, 0, 4]" "pack_i (- 1) = Inr [255, 255, 255, 255]"
  "pack_i 2147483648 = Inl struct_error" "unpack_i [255, 255, 255, 254] = Inr (- 2)"
  "pack_BI 2 258 = Inr [2, 0, 0, 1, 2]" "unpack_BI [5, 0, 0, 1, 2] = Inr (5, 258)"
  by (simp_all add: pack_i_def unpack_i_def pack_BI_def unpack_BI_def be32_def be32_val_def)

subsection \<open>The byte buffer\<close>

lemma BufferIO_read_exhausted:
  "length (getvalue b) \<le> pos b \<Longrightarrow> BufferIO_read sz b = ([], b)"
  by (simp add: BufferIO_read_def)

lemma BufferIO_read_new:
  "0 \<le> sz \<Longrightarrow> BufferIO_read sz (BufferIO_new v) =
     (take (nat sz) v, \<lparr>getvalue = v, pos = min (nat sz) (length v)\<rparr>)"
  by (simp add: BufferIO_read_def BufferIO_new_def min_def)

lemma BufferIO_read_split:
  assumes "BufferIO_read sz b = (ret, b')"
  shows "drop (pos b) (getvalue b) = ret @ drop (pos b') (getvalue b')"
proof -
  let ?rest = "drop (pos b) (getvalue b)"
  let ?out = "if sz < 0 then ?rest else take (nat sz) ?rest"
  have r: "BufferIO_read sz b = (?out, b\<lparr>pos := pos b + length ?out\<rparr>)"
    by (simp add: BufferIO_read_def Let_def)
  have "?rest = ?out @ drop (pos b + length ?out) (getvalue b)"
  proof (cases "sz < 0")
    case True
    then show ?thesis by simp
  next
    case False
    have "drop (pos b + length (take (nat sz) ?rest)) (getvalue b)
          = drop (length (take (nat sz) ?rest)) ?rest"
      by (simp add: add.commute)
    also have "\<dots> = drop (nat sz) ?rest"
      by (cases "nat sz \<le> length ?rest") (simp_all add: min_def)
    finally have d: "drop (pos b + length (take (nat sz) ?rest)) (getvalue b)
          = drop (nat sz) ?rest" .
    have "?rest = take (nat sz) ?rest @ drop (nat sz) ?rest"
      by (simp only: append_take_drop_id)
    then have "?rest = take (nat sz) ?rest
                 @ drop (pos b + length (take (nat sz) ?rest)) (getvalue b)"
      by (simp only: d)
    then show ?thesis using False by (simp only: if_False)
  qed
  with r assms show ?thesis by simp
qed

lemma BufferIO_read_nonempty:
  assumes "sz \<noteq> 0" and "drop (pos b) (getvalue b) \<noteq> []"
  shows "fst (BufferIO_read sz b) \<noteq> []"
  using assms by (auto simp: BufferIO_read_def Let_def)

subsection \<open>\<^verbatim>\<open>readAll\<close>\<close>

lemma readAll_le0: "n \<le> 0 \<Longrightarrow> readAll T n s = (Inr [], s)"
  by (simp add: readAll_def readAll_loop.simps)

lemma readAll_loop_seq:
  "reads_at_most T I \<Longrightarrow> I s \<Longrightarrow>
     \<exists>chunks s'. read_seq T (sz - have) s chunks s' \<and>
       ((readAll_loop T sz have buff s = (Inr (buff @ concat chunks), s') \<and>
          length (concat chunks) = nat (sz - have) \<and> [] \<notin> set chunks) \<or>
        (readAll_loop T sz have buff s = (Inl EOFError, s') \<and>
          chunks \<noteq> [] \<and> last chunks = [] \<and> [] \<notin> set (butlast chunks) \<and>
          length (concat chunks) < nat (sz - have)))"
proof (induction T sz "have" buff s rule: readAll_loop.induct)
  case (1 T sz "have" buff s)
  note H = \<open>reads_at_most T I\<close>
  show ?case
  proof (cases "have < sz")
    case False
    then have "readAll_loop T sz have buff s = (Inr buff, s)"
      by (simp add: readAll_loop.simps)
    with False show ?thesis
      by (intro exI[of _ "[]"] exI[of _ s]) (simp add: read_seq_Nil)
  next
    case True
    then have "I s \<and> 0 < sz - have" using \<open>I s\<close> by simp
    with H have "\<exists>chunk s'. t_read T (sz - have) s = (Inr chunk, s') \<and>
        int (length chunk) \<le> sz - have \<and> I s'"
      unfolding reads_at_most_def by blast
    then obtain chunk s1 where
      rd: "t_read T (sz - have) s = (Inr chunk, s1)" and
      le: "int (length chunk) \<le> sz - have" and I1: "I s1"
      by blast
    show ?thesis
    proof (cases "chunk = []")
      case True
      with rd \<open>have < sz\<close> have "readAll_loop T sz have buff s = (Inl EOFError, s1)"
        by (simp add: readAll_loop.simps)
      moreover from rd True have "read_seq T (sz - have) s [[]] s1"
        by (auto intro: read_seq.intros)
      ultimately show ?thesis using \<open>have < sz\<close>
        by (intro exI[of _ "[[]]"] exI[of _ s1]) simp
    next
      case False
      with rd \<open>have < sz\<close> have unf: "readAll_loop T sz have buff s =
          readAll_loop T sz (have + int (length chunk)) (buff @ chunk) s1"
        by (simp add: readAll_loop.simps)
      from "1.IH"[OF \<open>have < sz\<close> rd[symmetric] refl _ H I1] False
      obtain chunks s' where
        rs: "read_seq T (sz - (have + int (length chunk))) s1 chunks s'" and
        alt: "(readAll_loop T sz (have + int (length chunk)) (buff @ chunk) s1 = (Inr ((buff @ chunk) @ concat chunks), s') \<and>
          length (concat chunks) = nat (sz - (have + int (length chunk))) \<and> [] \<notin> set chunks) \<or>
        (readAll_loop T sz (have + int (length chunk)) (buff @ chunk) s1 = (Inl EOFError, s') \<and>
          chunks \<noteq> [] \<and> last chunks = [] \<and> [] \<notin> set (butlast chunks) \<and>
          length (concat chunks) < nat (sz - (have + int (length chunk))))"
        by auto
      have rs': "read_seq T (sz - have) s (chunk # chunks) s'"
        using rd rs by (auto intro: read_seq.intros simp: algebra_simps)
      from alt show ?thesis
      proof
        assume a: "readAll_loop T sz (have + int (length chunk)) (buff @ chunk) s1 = (Inr ((buff @ chunk) @ concat chunks), s') \<and>
          length (concat chunks) = nat (sz - (have + int (length chunk))) \<and> [] \<notin> set chunks"
        with unf rs' False le show ?thesis
          by (intro exI[of _ "chunk # chunks"] exI[of _ s']) (auto simp: nat_diff_distrib)
      next
        assume a: "readAll_loop T sz (have + int (length chunk)) (buff @ chunk) s1 = (Inl EOFError, s') \<and>
          chunks \<noteq> [] \<and> last chunks = [] \<and> [] \<notin> set (butlast chunks) \<and>
          length (concat chunks) < nat (sz - (have + int (length chunk)))"
        with unf rs' False le show ?thesis
          by (intro exI[of _ "chunk # chunks"] exI[of _ s']) auto
      qed
    qed
  qed
qed

text \<open>
  Claim C2. For every transport \<open>T\<close> whose \<^verbatim>\<open>read(k)\<close> returns at most \<open>k\<close> bytes (in the
  states \<open>I\<close> it is used in, which it does not leave), and every requested count \<open>n\<close>:
  \<^verbatim>\<open>readAll(n)\<close> makes successive \<^verbatim>\<open>read\<close> calls, each for the bytes still wanted, whose
  results are \<open>chunks\<close>, and either returns their concatenation in this order, which has
  exactly \<open>n\<close> bytes, none of the chunks being empty; or raises \<^verbatim>\<open>EOFError\<close>, the last chunk
  being the first empty one, read when fewer than \<open>n\<close> bytes had been accumulated. There is
  no third outcome, so fewer than \<open>n\<close> bytes are never returned. (\<open>nat n\<close> is \<open>n\<close> for a count;
  for a negative \<open>n\<close>, which is no count, no read is made and the result is empty.)
\<close>

theorem readAll_exact_or_EOFError:
  assumes "reads_at_most T I" and "I s"
  shows "\<exists>chunks s'. read_seq T n s chunks s' \<and>
       ((readAll T n s = (Inr (concat chunks), s') \<and>
          length (concat chunks) = nat n \<and> [] \<notin> set chunks) \<or>
        (readAll T n s = (Inl EOFError, s') \<and>
          chunks \<noteq> [] \<and> last chunks = [] \<and> [] \<notin> set (butlast chunks) \<and>
          length (concat chunks) < nat n))"
  using readAll_loop_seq[OF assms, of n 0 "[]"] by (simp add: readAll_def)

text \<open>
  An open \<^verbatim>\<open>TMemoryBuffer\<close> is such a transport. Reading 3 of the 5 bytes of "hello"
  returns "hel"; asking for 6 raises \<^verbatim>\<open>EOFError\<close>.
\<close>

lemma TMemoryBuffer_reads_at_most:
  "reads_at_most TMemoryBuffer_transport (\<lambda>m. \<not> closed m)"
  unfolding reads_at_most_def
  by (auto simp: TMemoryBuffer_transport_def TMemoryBuffer_read_def BufferIO_read_def Let_def)

theorem readAll_exact_or_EOFError_witness:
  "reads_at_most TMemoryBuffer_transport (\<lambda>m. \<not> closed m) \<and>
   \<not> closed (TMemoryBuffer_init (Some [104, 101, 108, 108, 111]) 0) \<and>
   (\<exists>chunks s'.
      read_seq TMemoryBuffer_transport 3 (TMemoryBuffer_init (Some [104, 101, 108, 108, 111]) 0) chunks s' \<and>
      ((readAll TMemoryBuffer_transport 3 (TMemoryBuffer_init (Some [104, 101, 108, 108, 111]) 0)
          = (Inr (concat chunks), s') \<and>
        length (concat chunks) = nat 3 \<and> [] \<notin> set chunks) \<or>
       (readAll TMemoryBuffer_transport 3 (TMemoryBuffer_init (Some [104, 101, 108, 108, 111]) 0)
          = (Inl EOFError, s') \<and>
        chunks \<noteq> [] \<and> last chunks = [] \<and> [] \<notin> set (butlast chunks) \<and>
        length (concat chunks) < nat 3)))"
proof -
  have h1: "reads_at_most TMemoryBuffer_transport (\<lambda>m. \<not> closed m)"
    by (rule TMemoryBuffer_reads_at_most)
  have h2: "\<not> closed (TMemoryBuffer_init (Some [104, 101, 108, 108, 111]) 0)"
    by (simp add: TMemoryBuffer_init_def)
  show ?thesis
    using h1 h2 readAll_exact_or_EOFError[OF h1 h2, of 3] by blast
qed

lemma readAll_hello_3:
  "fst (readAll TMemoryBuffer_transport 3 (TMemoryBuffer_init (Some [104, 101, 108, 108, 111]) 0))
     = Inr [104, 101, 108]"
  by (simp add: readAll_def readAll_loop.simps TMemoryBuffer_transport_def TMemoryBuffer_read_def
      TMemoryBuffer_init_def BufferIO_new_def BufferIO_read_def Let_def)

lemma readAll_hello_6:
  "fst (readAll TMemoryBuffer_transport 6 (TMemoryBuffer_init (Some [104, 101, 108, 108, 111]) 0))
     = Inl EOFError"
  by (simp add: readAll_def readAll_loop.simps TMemoryBuffer_transport_def TMemoryBuffer_read_def
      TMemoryBuffer_init_def BufferIO_new_def BufferIO_read_def Let_def)

subsection \<open>Reading from and writing to a byte channel\<close>

lemma byte_sourceD:
  assumes "byte_source T R" "R s p" "0 < k"
  obtains n s' where "t_read T k s = (Inr (take n p), s')" "n \<le> length p" "int n \<le> k"
    "p \<noteq> [] \<Longrightarrow> 0 < n" "R s' (drop n p)"
proof -
  from assms have "\<exists>n s'. t_read T k s = (Inr (take n p), s') \<and> n \<le> length p \<and> int n \<le> k \<and>
                (p \<noteq> [] \<longrightarrow> 0 < n) \<and> R s' (drop n p)"
    unfolding byte_source_def by blast
  then show thesis using that by blast
qed

lemma readAll_loop_source:
  "byte_source T R \<Longrightarrow> R s p \<Longrightarrow>
   (sz - have \<le> int (length p) \<longrightarrow>
      (\<exists>s'. readAll_loop T sz have buff s = (Inr (buff @ take (nat (sz - have)) p), s') \<and>
            R s' (drop (nat (sz - have)) p))) \<and>
   (int (length p) < sz - have \<longrightarrow>
      (\<exists>s'. readAll_loop T sz have buff s = (Inl EOFError, s') \<and> R s' []))"
proof (induction T sz "have" buff s arbitrary: p rule: readAll_loop.induct)
  case (1 T sz "have" buff s)
  note src = \<open>byte_source T R\<close>
  show ?case
  proof (cases "have < sz")
    case False
    then have "readAll_loop T sz have buff s = (Inr buff, s)"
      by (simp add: readAll_loop.simps)
    with False \<open>R s p\<close> show ?thesis by simp
  next
    case True
    then have k: "0 < sz - have" by simp
    from byte_sourceD[OF src \<open>R s p\<close> k] obtain n s1 where
      rd: "t_read T (sz - have) s = (Inr (take n p), s1)" and nle: "n \<le> length p"
      and nk: "int n \<le> sz - have" and npos: "p \<noteq> [] \<Longrightarrow> 0 < n" and R1: "R s1 (drop n p)"
      by blast
    show ?thesis
    proof (cases "p = []")
      case True
      with rd \<open>have < sz\<close> have "readAll_loop T sz have buff s = (Inl EOFError, s1)"
        by (simp add: readAll_loop.simps)
      with True R1 k show ?thesis by simp
    next
      case False
      with npos nle have n0: "0 < n" and len: "length (take n p) = n" by auto
      with rd \<open>have < sz\<close> have unf: "readAll_loop T sz have buff s =
          readAll_loop T sz (have + int n) (buff @ take n p) s1"
        by (simp add: readAll_loop.simps)
      have ne: "length (take n p) \<noteq> 0" using len n0 by simp
      note IH = "1.IH"[OF \<open>have < sz\<close> rd[symmetric] refl ne src R1, unfolded len]
      show ?thesis
      proof (intro conjI impI)
        assume a: "sz - have \<le> int (length p)"
        then have "sz - (have + int n) \<le> int (length (drop n p))" using nle by simp
        with IH obtain s' where
          "readAll_loop T sz (have + int n) (buff @ take n p) s1 =
             (Inr ((buff @ take n p) @ take (nat (sz - (have + int n))) (drop n p)), s')"
          "R s' (drop (nat (sz - (have + int n))) (drop n p))" by blast
        moreover have "nat (sz - have) = n + nat (sz - (have + int n))" using nk by simp
        ultimately show "\<exists>s'. readAll_loop T sz have buff s = (Inr (buff @ take (nat (sz - have)) p), s') \<and>
            R s' (drop (nat (sz - have)) p)"
          using unf by (simp add: take_add add.commute)
      next
        assume a: "int (length p) < sz - have"
        then have "int (length (drop n p)) < sz - (have + int n)" using nle by simp
        with IH unf show "\<exists>s'. readAll_loop T sz have buff s = (Inl EOFError, s') \<and> R s' []"
          by simp
      qed
    qed
  qed
qed

lemma readAll_source_enough:
  assumes "byte_source T R" "R s p" "n \<le> int (length p)"
  obtains s' where "readAll T n s = (Inr (take (nat n) p), s')" "R s' (drop (nat n) p)"
  using readAll_loop_source[OF assms(1,2), of n 0 "[]"] assms(3)
  by (auto simp: readAll_def)

lemma readAll_source_short:
  assumes "byte_source T R" "R s p" "int (length p) < n"
  obtains s' where "readAll T n s = (Inl EOFError, s')" "R s' []"
  using readAll_loop_source[OF assms(1,2), of n 0 "[]"] assms(3)
  by (auto simp: readAll_def)

lemma byte_sinkD:
  assumes "byte_sink T W" "W s b"
  obtains s1 s2 where "t_write T d s = (Inr (), s1)" "t_flush T s1 = (Inr (), s2)" "W s2 (b @ d)"
proof -
  from assms obtain s1 where w: "t_write T d s = (Inr (), s1)" and W1: "W s1 (b @ d)"
    unfolding byte_sink_def by blast
  from assms(1) W1 obtain s2 where "t_flush T s1 = (Inr (), s2)" "W s2 (b @ d)"
    unfolding byte_sink_def by blast
  with w show thesis using that by blast
qed

lemma TMemoryBuffer_byte_source: "byte_source TMemoryBuffer_transport TMemoryBuffer_pending"
  unfolding byte_source_def
proof (intro allI impI)
  fix s p k assume a: "TMemoryBuffer_pending s p \<and> (0::int) < k"
  let ?n = "min (nat k) (length p)"
  let ?s' = "s\<lparr>buffer := (buffer s)\<lparr>pos := pos (buffer s) + ?n\<rparr>\<rparr>"
  from a have "t_read TMemoryBuffer_transport k s = (Inr (take ?n p), ?s')"
    by (simp add: TMemoryBuffer_transport_def TMemoryBuffer_read_def BufferIO_read_def
        TMemoryBuffer_pending_def Let_def min_def)
  moreover from a have "TMemoryBuffer_pending ?s' (drop ?n p)"
    by (simp add: TMemoryBuffer_pending_def add.commute)
  moreover from a have "?n \<le> length p" "int ?n \<le> k" "p \<noteq> [] \<longrightarrow> 0 < ?n" by auto
  ultimately show "\<exists>n s'. t_read TMemoryBuffer_transport k s = (Inr (take n p), s') \<and>
      n \<le> length p \<and> int n \<le> k \<and> (p \<noteq> [] \<longrightarrow> 0 < n) \<and> TMemoryBuffer_pending s' (drop n p)"
    by blast
qed

lemma TMemoryBuffer_byte_sink: "byte_sink TMemoryBuffer_transport TMemoryBuffer_written"
  unfolding byte_sink_def
  by (auto simp: TMemoryBuffer_transport_def TMemoryBuffer_write_def BufferIO_write_def
      TMemoryBuffer_written_def TMemoryBuffer_flush_def)

lemma TMemoryBuffer_pending_init:
  "TMemoryBuffer_pending (TMemoryBuffer_init (Some v) 0) v"
  by (simp add: TMemoryBuffer_pending_def TMemoryBuffer_init_def BufferIO_new_def)

lemma TMemoryBuffer_written_init:
  "TMemoryBuffer_written (TMemoryBuffer_init None 0) []"
  by (simp add: TMemoryBuffer_written_def TMemoryBuffer_init_def BufferIO_new_def)

subsection \<open>Frames\<close>

lemma frame_Nil: "frame [] = [0, 0, 0, 0]"
  by (simp add: frame_def be32_def)

lemma cut_off_Nil: "cut_off []"
  unfolding cut_off_def
  by (intro exI[of _ "[]"] exI[of _ "frame []"]) (simp add: frame_def be32_def)

lemma cut_off_cases:
  assumes "cut_off tail"
  shows "length tail < 4 \<or>
    (\<exists>n. 0 \<le> n \<and> n < 2147483648 \<and> take 4 tail = be32 n \<and> 4 \<le> length tail \<and>
         int (length (drop 4 tail)) < n)"
proof -
  from assms obtain payload missing where
    p: "length payload < 2147483648" and m: "missing \<noteq> []" and e: "tail @ missing = frame payload"
    unfolding cut_off_def by blast
  show ?thesis
  proof (cases "length tail < 4")
    case True then show ?thesis by simp
  next
    case False
    then have l: "4 \<le> length tail" by simp
    from e have "take 4 (tail @ missing) = be32 (int (length payload))"
      by (simp add: frame_def)
    with l have t4: "take 4 tail = be32 (int (length payload))" by simp
    from e have "drop 4 (tail @ missing) = payload" by (simp add: frame_def)
    with l have "drop 4 tail @ missing = payload" by simp
    then have "length (drop 4 tail) + length missing = length payload"
      by (metis length_append)
    with m have "int (length (drop 4 tail)) < int (length payload)"
      by (cases missing) auto
    with t4 l p show ?thesis by (intro disjI2 exI[of _ "int (length payload)"]) auto
  qed
qed

lemma TFramedTransport_readFrame_frame:
  assumes src: "byte_source T R" and R: "R (f_trans st) (frame payload @ rest)"
    and len: "length payload < 2147483648"
  obtains t' where
    "TFramedTransport_readFrame T st = (Inr (), st\<lparr>f_trans := t', f_rbuf := BufferIO_new payload\<rparr>)"
    "R t' rest"
proof -
  have l4: "(4::int) \<le> int (length (frame payload @ rest))" by (simp add: frame_def)
  from readAll_source_enough[OF src R l4] obtain t1 where
    r1: "readAll T 4 (f_trans st) = (Inr (be32 (int (length payload))), t1)"
    and R1: "R t1 (payload @ rest)"
    by (auto simp: frame_def)
  have up: "unpack_i (be32 (int (length payload))) = Inr (int (length payload))"
    using len by (intro unpack_i_be32) auto
  have l2: "int (length payload) \<le> int (length (payload @ rest))" by simp
  from readAll_source_enough[OF src R1 l2] obtain t2 where
    r2: "readAll T (int (length payload)) t1 = (Inr payload, t2)" and R2: "R t2 rest"
    by auto
  have "TFramedTransport_readFrame T st = (Inr (), st\<lparr>f_trans := t2, f_rbuf := BufferIO_new payload\<rparr>)"
    by (simp add: TFramedTransport_readFrame_def r1 up r2)
  with R2 show thesis using that by blast
qed

lemma TFramedTransport_readFrame_cut_off:
  assumes src: "byte_source T R" and R: "R (f_trans st) tail" and c: "cut_off tail"
  obtains st' where "TFramedTransport_readFrame T st = (Inl EOFError, st')"
    "f_rbuf st' = f_rbuf st" "f_wbuf st' = f_wbuf st"
proof -
  from cut_off_cases[OF c] show thesis
  proof
    assume "length tail < 4"
    then have "int (length tail) < 4" by simp
    from readAll_source_short[OF src R this] obtain t1 where
      "readAll T 4 (f_trans st) = (Inl EOFError, t1)" by blast
    then have "TFramedTransport_readFrame T st = (Inl EOFError, st\<lparr>f_trans := t1\<rparr>)"
      by (simp add: TFramedTransport_readFrame_def)
    then show thesis using that by simp
  next
    assume "\<exists>n. 0 \<le> n \<and> n < 2147483648 \<and> take 4 tail = be32 n \<and> 4 \<le> length tail \<and>
         int (length (drop 4 tail)) < n"
    then obtain n where n: "0 \<le> n" "n < 2147483648" and t4: "take 4 tail = be32 n"
      and l: "4 \<le> length tail" and short: "int (length (drop 4 tail)) < n" by blast
    have l4: "(4::int) \<le> int (length tail)" using l by simp
    from readAll_source_enough[OF src R l4] obtain t1 where
      r1: "readAll T 4 (f_trans st) = (Inr (be32 n), t1)" and R1: "R t1 (drop 4 tail)"
      using t4 by auto
    from readAll_source_short[OF src R1 short] obtain t2 where
      r2: "readAll T n t1 = (Inl EOFError, t2)" by blast
    have "TFramedTransport_readFrame T st = (Inl EOFError, st\<lparr>f_trans := t2\<rparr>)"
      by (simp add: TFramedTransport_readFrame_def r1 r2 unpack_i_be32[OF n])
    then show thesis using that by simp
  qed
qed

lemma TSaslClientTransport_read_frame_frame:
  assumes src: "byte_source T R" and R: "R (transport st) (frame encoded @ rest)"
    and len: "length encoded < 2147483648"
  obtains t' where
    "TSaslClientTransport_read_frame T S st =
       (case sasl_unwrap S encoded (sasl st) of
          (Inl e, a) \<Rightarrow> (Inl e, st\<lparr>transport := t', sasl := a\<rparr>)
        | (Inr data, a) \<Rightarrow> (Inr (), st\<lparr>transport := t', sasl := a, s_rbuf := BufferIO_new data\<rparr>))"
    "R t' rest"
proof -
  have l4: "(4::int) \<le> int (length (frame encoded @ rest))" by (simp add: frame_def)
  from readAll_source_enough[OF src R l4] obtain t1 where
    r1: "readAll T 4 (transport st) = (Inr (be32 (int (length encoded))), t1)"
    and R1: "R t1 (encoded @ rest)"
    by (auto simp: frame_def)
  have up: "unpack_i (be32 (int (length encoded))) = Inr (int (length encoded))"
    using len by (intro unpack_i_be32) auto
  have l2: "int (length encoded) \<le> int (length (encoded @ rest))" by simp
  from readAll_source_enough[OF src R1 l2] obtain t2 where
    r2: "readAll T (int (length encoded)) t1 = (Inr encoded, t2)" and R2: "R t2 rest"
    by auto
  have "TSaslClientTransport_read_frame T S st =
       (case sasl_unwrap S encoded (sasl st) of
          (Inl e, a) \<Rightarrow> (Inl e, st\<lparr>transport := t2, sasl := a\<rparr>)
        | (Inr data, a) \<Rightarrow> (Inr (), st\<lparr>transport := t2, sasl := a, s_rbuf := BufferIO_new data\<rparr>))"
    by (simp add: TSaslClientTransport_read_frame_def r1 up r2)
  with R2 show thesis using that by blast
qed

lemma TSaslClientTransport_read_frame_cut_off:
  assumes src: "byte_source T R" and R: "R (transport st) tail" and c: "cut_off tail"
  obtains st' where "TSaslClientTransport_read_frame T S st = (Inl EOFError, st')"
    "sasl st' = sasl st"
proof -
  from cut_off_cases[OF c] show thesis
  proof
    assume "length tail < 4"
    then have "int (length tail) < 4" by simp
    from readAll_source_short[OF src R this] obtain t1 where
      "readAll T 4 (transport st) = (Inl EOFError, t1)" by blast
    then have "TSaslClientTransport_read_frame T S st = (Inl EOFError, st\<lparr>transport := t1\<rparr>)"
      by (simp add: TSaslClientTransport_read_frame_def)
    then show thesis using that by simp
  next
    assume "\<exists>n. 0 \<le> n \<and> n < 2147483648 \<and> take 4 tail = be32 n \<and> 4 \<le> length tail \<and>
         int (length (drop 4 tail)) < n"
    then obtain n where n: "0 \<le> n" "n < 2147483648" and t4: "take 4 tail = be32 n"
      and l: "4 \<le> length tail" and short: "int (length (drop 4 tail)) < n" by blast
    have l4: "(4::int) \<le> int (length tail)" using l by simp
    from readAll_source_enough[OF src R l4] obtain t1 where
      r1: "readAll T 4 (transport st) = (Inr (be32 n), t1)" and R1: "R t1 (drop 4 tail)"
      using t4 by auto
    from readAll_source_short[OF src R1 short] obtain t2 where
      r2: "readAll T n t1 = (Inl EOFError, t2)" by blast
    have "TSaslClientTransport_read_frame T S st = (Inl EOFError, st\<lparr>transport := t2\<rparr>)"
      by (simp add: TSaslClientTransport_read_frame_def r1 r2 unpack_i_be32[OF n])
    then show thesis using that by simp
  qed
qed

subsection \<open>\<^verbatim>\<open>TBufferedTransport\<close>: one write, one flush\<close>

lemma TBufferedTransport_writes_append:
  "pos (b_wbuf st) = length (getvalue (b_wbuf st)) \<Longrightarrow>
   TBufferedTransport_writes bufs st =
     (Inr (), st\<lparr>b_wbuf := \<lparr>getvalue = getvalue (b_wbuf st) @ concat bufs,
                              pos = length (getvalue (b_wbuf st) @ concat bufs)\<rparr>\<rparr>)"
proof (induction bufs arbitrary: st)
  case Nil
  then show ?case by simp
next
  case (Cons buf bufs)
  show ?case
  proof (cases "buf = []")
    case True
    with Cons show ?thesis
      by (simp add: TBufferedTransport_write_def BufferIO_write_def)
  next
    case False
    with Cons.prems have w: "TBufferedTransport_write (PyBytes buf) st =
        (Inr (), st\<lparr>b_wbuf := \<lparr>getvalue = getvalue (b_wbuf st) @ buf,
                                 pos = length (getvalue (b_wbuf st) @ buf)\<rparr>\<rparr>)"
      by (simp add: TBufferedTransport_write_def BufferIO_write_def)
    show ?thesis
      by (simp add: w Cons.IH)
  qed
qed

text \<open>
  Claim C3. A buffered transport whose write buffer is empty (as the constructor and every
  \<^verbatim>\<open>flush\<close> leave it) receives any sequence \<open>bufs\<close> of \<^verbatim>\<open>write\<close> calls and then one
  \<^verbatim>\<open>flush\<close>. All the writes return, and leave the inner transport as it was, its log of
  calls included: no byte reaches it before the flush. The flush then makes exactly one
  \<^verbatim>\<open>write\<close> call on the inner transport, whose payload is the concatenation of \<open>bufs\<close> in
  order, followed by exactly one \<^verbatim>\<open>flush\<close> call (no \<^verbatim>\<open>flush\<close> call when the inner
  \<^verbatim>\<open>write\<close> raised, since the exception ends the method).
\<close>

theorem TBufferedTransport_one_write_one_flush:
  assumes "b_wbuf st = BufferIO_new []" and "b_trans st = (s, log)"
  shows "\<exists>st1. TBufferedTransport_writes bufs st = (Inr (), st1) \<and>
           b_trans st1 = (s, log) \<and>
           snd (b_trans (snd (TBufferedTransport_flush (traced T) st1))) =
             (case fst (t_write T (concat bufs) s) of
                Inr u \<Rightarrow> log @ [Write (concat bufs), Flush]
              | Inl e \<Rightarrow> log @ [Write (concat bufs)])"
proof -
  let ?st1 = "st\<lparr>b_wbuf := \<lparr>getvalue = concat bufs, pos = length (concat bufs)\<rparr>\<rparr>"
  from assms(1) have "TBufferedTransport_writes bufs st = (Inr (), ?st1)"
    using TBufferedTransport_writes_append[of st bufs] by (simp add: BufferIO_new_def)
  moreover have "b_trans ?st1 = (s, log)" using assms(2) by simp
  moreover have "snd (b_trans (snd (TBufferedTransport_flush (traced T) ?st1))) =
             (case fst (t_write T (concat bufs) s) of
                Inr u \<Rightarrow> log @ [Write (concat bufs), Flush]
              | Inl e \<Rightarrow> log @ [Write (concat bufs)])"
    using assms(2)
    by (simp add: TBufferedTransport_flush_def traced_def Let_def split: prod.splits sum.splits)
  ultimately show ?thesis by blast
qed

theorem TBufferedTransport_one_write_one_flush_witness:
  "b_wbuf (TBufferedTransport_init (TMemoryBuffer_init None 0, []) DEFAULT_BUFFER) = BufferIO_new [] \<and>
   b_trans (TBufferedTransport_init (TMemoryBuffer_init None 0, []) DEFAULT_BUFFER)
     = (TMemoryBuffer_init None 0, []) \<and>
   (\<exists>st1. TBufferedTransport_writes [[1, 2], [], [3]]
            (TBufferedTransport_init (TMemoryBuffer_init None 0, []) DEFAULT_BUFFER) = (Inr (), st1) \<and>
          b_trans st1 = (TMemoryBuffer_init None 0, []) \<and>
          snd (b_trans (snd (TBufferedTransport_flush (traced TMemoryBuffer_transport) st1)))
            = [Write [1, 2, 3], Flush])"
proof -
  let ?st = "TBufferedTransport_init (TMemoryBuffer_init None 0, []) DEFAULT_BUFFER"
  have h1: "b_wbuf ?st = BufferIO_new []" by (simp add: TBufferedTransport_init_def)
  have h2: "b_trans ?st = (TMemoryBuffer_init None 0, [])" by (simp add: TBufferedTransport_init_def)
  have w: "fst (t_write TMemoryBuffer_transport [1, 2, 3] (TMemoryBuffer_init None 0)) = Inr ()"
    by (simp add: TMemoryBuffer_transport_def TMemoryBuffer_write_def TMemoryBuffer_init_def
        BufferIO_write_def BufferIO_new_def)
  show ?thesis
    using h1 h2 TBufferedTransport_one_write_one_flush[OF h1 h2, of "[[1, 2], [], [3]]" TMemoryBuffer_transport] w
    by simp
qed

subsection \<open>The write buffers\<close>

lemma BufferIO_write_append:
  "pos b = length (getvalue b) \<Longrightarrow>
   BufferIO_write (PyBytes d) b =
     (Inr (), \<lparr>getvalue = getvalue b @ d, pos = length (getvalue b @ d)\<rparr>)"
  by (cases "d = []") (simp_all add: BufferIO_write_def)

lemma TBufferedTransport_keeps_wbuf:
  "b_wbuf (snd (TBufferedTransport_isOpen T bt)) = b_wbuf bt"
  "b_wbuf (snd (TBufferedTransport_open T bt)) = b_wbuf bt"
  "b_wbuf (snd (TBufferedTransport_close T bt)) = b_wbuf bt"
  "b_wbuf (snd (TBufferedTransport_read T sz bt)) = b_wbuf bt"
  "b_wbuf (snd (TBufferedTransport_cstringio_refill T prefix reqlen bt)) = b_wbuf bt"
  by (simp_all add: TBufferedTransport_isOpen_def TBufferedTransport_open_def
      TBufferedTransport_close_def TBufferedTransport_read_def
      TBufferedTransport_cstringio_refill_def Let_def split: prod.splits sum.splits)

lemma TFramedTransport_readFrame_keeps_wbuf:
  "f_wbuf (snd (TFramedTransport_readFrame T ft)) = f_wbuf ft"
  by (simp add: TFramedTransport_readFrame_def split: prod.splits sum.splits)

lemma TFramedTransport_keeps_wbuf:
  "f_wbuf (snd (TFramedTransport_isOpen T ft)) = f_wbuf ft"
  "f_wbuf (snd (TFramedTransport_open T ft)) = f_wbuf ft"
  "f_wbuf (snd (TFramedTransport_close T ft)) = f_wbuf ft"
  "f_wbuf (snd (TFramedTransport_read T sz ft)) = f_wbuf ft"
proof -
  show "f_wbuf (snd (TFramedTransport_isOpen T ft)) = f_wbuf ft"
    by (simp add: TFramedTransport_isOpen_def split: prod.splits)
  show "f_wbuf (snd (TFramedTransport_open T ft)) = f_wbuf ft"
    by (simp add: TFramedTransport_open_def split: prod.splits)
  show "f_wbuf (snd (TFramedTransport_close T ft)) = f_wbuf ft"
    by (simp add: TFramedTransport_close_def split: prod.splits)
  obtain ret rb where rd: "BufferIO_read sz (f_rbuf ft) = (ret, rb)"
    by (cases "BufferIO_read sz (f_rbuf ft)")
  obtain r ft2 where rf: "TFramedTransport_readFrame T (ft\<lparr>f_rbuf := rb\<rparr>) = (r, ft2)"
    by (cases "TFramedTransport_readFrame T (ft\<lparr>f_rbuf := rb\<rparr>)")
  from TFramedTransport_readFrame_keeps_wbuf[of T "ft\<lparr>f_rbuf := rb\<rparr>"] rf
  have "f_wbuf ft2 = f_wbuf ft" by simp
  then show "f_wbuf (snd (TFramedTransport_read T sz ft)) = f_wbuf ft"
    using rd rf by (simp add: TFramedTransport_read_def Let_def split: prod.splits sum.splits)
qed

lemma TFramedTransport_cstringio_refill_keeps_wbuf:
  assumes "TFramedTransport_cstringio_refill T prefix reqlen ft = Some y"
  shows "f_wbuf (snd y) = f_wbuf ft"
proof (rule TFramedTransport_cstringio_refill.raw_induct
    [where P = "\<lambda>T prefix reqlen ft y. f_wbuf (snd y) = f_wbuf ft", OF _ assms])
  fix refill T prefix reqlen and st :: "'a TFramedTransport" and y
  assume IH: "\<And>T prefix reqlen st y. refill T prefix reqlen st = Some y \<Longrightarrow>
                f_wbuf (snd y) = f_wbuf st"
    and body: "(if int (length prefix) < reqlen then
        (case TFramedTransport_readFrame T st of
           (Inl e, st') \<Rightarrow> Some (Inl e, st')
         | (Inr u, st') \<Rightarrow> refill T (prefix @ getvalue (f_rbuf st')) reqlen st')
      else Some (Inr (BufferIO_new prefix), st\<lparr>f_rbuf := BufferIO_new prefix\<rparr>)) = Some y"
  show "f_wbuf (snd y) = f_wbuf st"
  proof (cases "int (length prefix) < reqlen")
    case False
    with body show ?thesis by auto
  next
    case True
    obtain r st' where rf: "TFramedTransport_readFrame T st = (r, st')"
      by (cases "TFramedTransport_readFrame T st")
    from TFramedTransport_readFrame_keeps_wbuf[of T st] rf
    have w: "f_wbuf st' = f_wbuf st" by simp
    show ?thesis
    proof (cases r)
      case (Inl e)
      with True rf body w show ?thesis by auto
    next
      case (Inr u)
      with True rf body
      have "refill T (prefix @ getvalue (f_rbuf st')) reqlen st' = Some y" by simp
      from IH[OF this] w show ?thesis by simp
    qed
  qed
qed

lemma send_sasl_msg_keeps_wbuf:
  "s_wbuf (snd (send_sasl_msg T status body sa)) = s_wbuf sa"
  by (simp add: send_sasl_msg_def split: prod.splits sum.splits)

lemma recv_sasl_msg_keeps_wbuf:
  "s_wbuf (snd (recv_sasl_msg T sa)) = s_wbuf sa"
  by (simp add: recv_sasl_msg_def split: prod.splits sum.splits)

lemma TSaslClientTransport_read_frame_keeps_wbuf:
  "s_wbuf (snd (TSaslClientTransport_read_frame T S sa)) = s_wbuf sa"
  by (simp add: TSaslClientTransport_read_frame_def split: prod.splits sum.splits)

lemma TSaslClientTransport_close_keeps_wbuf:
  "s_wbuf (snd (TSaslClientTransport_close T S sa)) = s_wbuf sa"
  by (simp add: TSaslClientTransport_close_def split: prod.splits sum.splits)

lemma TSaslClientTransport_read_keeps_wbuf:
  "s_wbuf (snd (TSaslClientTransport_read T S sz sa)) = s_wbuf sa"
proof -
  obtain ret rb where rd: "BufferIO_read sz (s_rbuf sa) = (ret, rb)"
    by (cases "BufferIO_read sz (s_rbuf sa)")
  obtain r sa2 where rf: "TSaslClientTransport_read_frame T S (sa\<lparr>s_rbuf := rb\<rparr>) = (r, sa2)"
    by (cases "TSaslClientTransport_read_frame T S (sa\<lparr>s_rbuf := rb\<rparr>)")
  from TSaslClientTransport_read_frame_keeps_wbuf[of T S "sa\<lparr>s_rbuf := rb\<rparr>"] rf
  have "s_wbuf sa2 = s_wbuf sa" by simp
  then show ?thesis
    using rd rf by (simp add: TSaslClientTransport_read_def Let_def split: prod.splits sum.splits)
qed

lemma TSaslClientTransport_cstringio_refill_keeps_wbuf:
  assumes "TSaslClientTransport_cstringio_refill T S prefix reqlen sa = Some y"
  shows "s_wbuf (snd y) = s_wbuf sa"
proof (rule TSaslClientTransport_cstringio_refill.raw_induct
    [where P = "\<lambda>T S prefix reqlen sa y. s_wbuf (snd y) = s_wbuf sa", OF _ assms])
  fix refill T S prefix reqlen and st :: "('a, 'b) TSaslClientTransport" and y
  assume IH: "\<And>T S prefix reqlen st y. refill T S prefix reqlen st = Some y \<Longrightarrow>
                s_wbuf (snd y) = s_wbuf st"
    and body: "(if int (length prefix) < reqlen then
        (case TSaslClientTransport_read_frame T S st of
           (Inl e, st') \<Rightarrow> Some (Inl e, st')
         | (Inr u, st') \<Rightarrow> refill T S (prefix @ getvalue (s_rbuf st')) reqlen st')
      else Some (Inr (BufferIO_new prefix), st\<lparr>s_rbuf := BufferIO_new prefix\<rparr>)) = Some y"
  show "s_wbuf (snd y) = s_wbuf st"
  proof (cases "int (length prefix) < reqlen")
    case False
    with body show ?thesis by auto
  next
    case True
    obtain r st' where rf: "TSaslClientTransport_read_frame T S st = (r, st')"
      by (cases "TSaslClientTransport_read_frame T S st")
    from TSaslClientTransport_read_frame_keeps_wbuf[of T S st] rf
    have w: "s_wbuf st' = s_wbuf st" by simp
    show ?thesis
    proof (cases r)
      case (Inl e)
      with True rf body w show ?thesis by auto
    next
      case (Inr u)
      with True rf body
      have "refill T S (prefix @ getvalue (s_rbuf st')) reqlen st' = Some y" by simp
      from IH[OF this] w show ?thesis by simp
    qed
  qed
qed

lemma TSaslClientTransport_open_start_keeps_wbuf:
  "s_wbuf (snd (TSaslClientTransport_open_start T S sa)) = s_wbuf sa"
proof -
  have s: "s_wbuf (snd (send_sasl_msg T status body x)) = s_wbuf x" for status body x
    by (rule send_sasl_msg_keeps_wbuf)
  have s': "send_sasl_msg T status body x = (r, x') \<Longrightarrow> s_wbuf x' = s_wbuf x" for status body x r x'
    using s[of status body x] by simp
  show ?thesis
    by (auto simp: TSaslClientTransport_open_start_def Let_def s
        split: prod.splits sum.splits dest!: s')
qed

lemma TSaslClientTransport_open_loop_keeps_wbuf:
  assumes "TSaslClientTransport_open_loop T S sa = Some y"
  shows "s_wbuf (snd y) = s_wbuf sa"
proof (rule TSaslClientTransport_open_loop.raw_induct
    [where P = "\<lambda>T S sa y. s_wbuf (snd y) = s_wbuf sa", OF _ assms])
  fix loop T S and st :: "('a, 'b) TSaslClientTransport" and y
  assume IH: "\<And>T S st y. loop T S st = Some y \<Longrightarrow> s_wbuf (snd y) = s_wbuf st"
    and body: "(case recv_sasl_msg T st of
        (Inl e, st1) \<Rightarrow> Some (Inl e, st1)
      | (Inr (status, challenge), st1) \<Rightarrow>
          (if status = OK then
             (case sasl_process S (Some challenge) (sasl st1) of
                (Inl e, a) \<Rightarrow> Some (Inl e, st1\<lparr>sasl := a\<rparr>)
              | (Inr response, a) \<Rightarrow>
                  (case send_sasl_msg T OK response (st1\<lparr>sasl := a\<rparr>) of
                     (Inl e, st2) \<Rightarrow> Some (Inl e, st2)
                   | (Inr u, st2) \<Rightarrow> loop T S st2))
           else if status = COMPLETE then
             (if \<not> sasl_complete S (sasl st1)
              then Some (Inl (TTransportException NOT_OPEN), st1)
              else Some (Inr (), st1))
           else Some (Inl (TTransportException NOT_OPEN), st1))) = Some y"
  obtain r st1 where rv: "recv_sasl_msg T st = (r, st1)" by (cases "recv_sasl_msg T st")
  from recv_sasl_msg_keeps_wbuf[of T st] rv have w1: "s_wbuf st1 = s_wbuf st" by simp
  show "s_wbuf (snd y) = s_wbuf st"
  proof (cases r)
    case (Inl e)
    with rv body w1 show ?thesis by auto
  next
    case (Inr msg)
    obtain status challenge where msg: "msg = (status, challenge)" by (cases msg)
    show ?thesis
    proof (cases "status = OK")
      case False
      with rv Inr msg body w1 show ?thesis by (auto split: if_splits)
    next
      case True
      obtain r2 a where pr: "sasl_process S (Some challenge) (sasl st1) = (r2, a)"
        by (cases "sasl_process S (Some challenge) (sasl st1)")
      show ?thesis
      proof (cases r2)
        case (Inl e)
        with rv \<open>r = Inr msg\<close> msg True pr body w1 show ?thesis by auto
      next
        case (Inr response)
        obtain r3 st2 where sn: "send_sasl_msg T OK response (st1\<lparr>sasl := a\<rparr>) = (r3, st2)"
          by (cases "send_sasl_msg T OK response (st1\<lparr>sasl := a\<rparr>)")
        from send_sasl_msg_keeps_wbuf[of T OK response "st1\<lparr>sasl := a\<rparr>"] sn w1
        have w2: "s_wbuf st2 = s_wbuf st" by simp
        show ?thesis
        proof (cases r3)
          case (Inl e)
          with rv \<open>r = Inr msg\<close> msg True pr \<open>r2 = Inr response\<close> sn body
          have "y = (Inl e, st2)" by simp
          with w2 show ?thesis by simp
        next
          case (Inr u)
          with rv \<open>r = Inr msg\<close> msg True pr \<open>r2 = Inr response\<close> sn body
          have "loop T S st2 = Some y" by simp
          from IH[OF this] w2 show ?thesis by simp
        qed
      qed
    qed
  qed
qed

lemma TSaslClientTransport_open_keeps_wbuf:
  "TSaslClientTransport_open T S sa = Some y \<Longrightarrow> s_wbuf (snd y) = s_wbuf sa"
proof -
  assume a: "TSaslClientTransport_open T S sa = Some y"
  obtain r sa1 where st: "TSaslClientTransport_open_start T S sa = (r, sa1)"
    by (cases "TSaslClientTransport_open_start T S sa")
  from TSaslClientTransport_open_start_keeps_wbuf[of T S sa] st
  have w: "s_wbuf sa1 = s_wbuf sa" by simp
  show ?thesis
  proof (cases r)
    case (Inl e)
    with a st w show ?thesis by (auto simp: TSaslClientTransport_open_def)
  next
    case (Inr u)
    with a st have "TSaslClientTransport_open_loop T S sa1 = Some y"
      by (simp add: TSaslClientTransport_open_def)
    from TSaslClientTransport_open_loop_keeps_wbuf[OF this] w show ?thesis by simp
  qed
qed

lemma TSaslClientTransport_flush_result:
  "TSaslClientTransport_flush T S st =
     (case sasl_wrap S (getvalue (s_wbuf st)) (sasl st) of
        (Inl e, a) \<Rightarrow> (Inl e, st\<lparr>sasl := a\<rparr>)
      | (Inr encoded, a) \<Rightarrow>
          (if length encoded < 2147483648 then Inl TypeError else Inl struct_error,
           st\<lparr>sasl := a\<rparr>))"
  by (simp add: TSaslClientTransport_flush_def Let_def pack_i_def str_join_def
      split: prod.splits sum.splits)

text \<open>
  Claim C6 says that a write buffer is cleared only by a flush that succeeds, and that a
  flush during which the inner \<^verbatim>\<open>write\<close> or \<^verbatim>\<open>flush\<close> raises does not clear the buffered
  bytes. For \<^verbatim>\<open>TBufferedTransport\<close> and \<^verbatim>\<open>TFramedTransport\<close> this is not what \<^verbatim>\<open>flush\<close>
  does: it empties the buffer first and calls the inner transport afterwards. Here the
  inner transport is a closed \<^verbatim>\<open>TMemoryBuffer\<close>, whose \<^verbatim>\<open>write\<close> raises \<^verbatim>\<open>ValueError\<close>: the
  flush raises, and the three buffered bytes are gone.
\<close>

theorem write_buffer_cleared_before_inner_write_counterexample:
  "fst (TBufferedTransport_flush TMemoryBuffer_transport
          \<lparr>b_trans = snd (TMemoryBuffer_close (TMemoryBuffer_init None 0)),
           b_wbuf = snd (BufferIO_write (PyBytes [1, 2, 3]) (BufferIO_new [])),
           b_rbuf = BufferIO_new [], b_rbuf_size = DEFAULT_BUFFER\<rparr>) = Inl ValueError \<and>
   getvalue (snd (BufferIO_write (PyBytes [1, 2, 3]) (BufferIO_new []))) = [1, 2, 3] \<and>
   getvalue (b_wbuf (snd (TBufferedTransport_flush TMemoryBuffer_transport
          \<lparr>b_trans = snd (TMemoryBuffer_close (TMemoryBuffer_init None 0)),
           b_wbuf = snd (BufferIO_write (PyBytes [1, 2, 3]) (BufferIO_new [])),
           b_rbuf = BufferIO_new [], b_rbuf_size = DEFAULT_BUFFER\<rparr>))) = []"
  by (simp add: TBufferedTransport_flush_def TMemoryBuffer_transport_def TMemoryBuffer_write_def
      TMemoryBuffer_close_def TMemoryBuffer_init_def BufferIO_write_def BufferIO_new_def Let_def)

text \<open>
  Claim C6, as the code has it: all of the claim but that one point. For each of the
  three classes, in this order: buffered, framed, security-negotiated.

  The write buffer is changed by \<^verbatim>\<open>write\<close> and \<^verbatim>\<open>flush\<close> only. Every other method leaves it
  as it was: \<^verbatim>\<open>isOpen\<close>, \<^verbatim>\<open>open\<close>, \<^verbatim>\<open>close\<close>, \<^verbatim>\<open>read\<close>, \<^verbatim>\<open>readFrame\<close> and \<^verbatim>\<open>_read_frame\<close>,
  \<^verbatim>\<open>cstringio_refill\<close>, \<^verbatim>\<open>send_sasl_msg\<close> and \<^verbatim>\<open>recv_sasl_msg\<close> (for the methods with a
  loop: whenever they return or raise). A \<^verbatim>\<open>write\<close> of a byte string appends it to the
  buffer, whose position is at its end, where the constructor, \<^verbatim>\<open>write\<close> and \<^verbatim>\<open>flush\<close>
  leave it. A \<^verbatim>\<open>write\<close> of anything else raises: the buffered transport then discards its
  buffer, the other two keep theirs.

  \<^verbatim>\<open>flush\<close> never flushes a part of the buffer. The buffered and the framed flush make one
  \<^verbatim>\<open>write\<close> call on the inner transport, with the whole content (framed: in its envelope,
  and no call at all when the length cannot be packed), and then one \<^verbatim>\<open>flush\<close> call when
  that \<^verbatim>\<open>write\<close> returned. The security-negotiated flush calls nothing, or makes one
  \<^verbatim>\<open>write\<close> call with the envelope of the whole wrapped content, and then at most one
  \<^verbatim>\<open>flush\<close> call.

  The buffered and the framed flush leave the write buffer empty in every case, also when
  the inner \<^verbatim>\<open>write\<close> or \<^verbatim>\<open>flush\<close> raises: this is where the code differs from the claim.
  A security-negotiated flush that raises leaves the buffered bytes in place, and one that
  returns leaves the buffer empty.
\<close>

theorem write_buffer_cleared_only_by_flush:
  "(b_wbuf (snd (TBufferedTransport_isOpen T bt)) = b_wbuf bt \<and>
    b_wbuf (snd (TBufferedTransport_open T bt)) = b_wbuf bt \<and>
    b_wbuf (snd (TBufferedTransport_close T bt)) = b_wbuf bt \<and>
    b_wbuf (snd (TBufferedTransport_read T sz bt)) = b_wbuf bt \<and>
    b_wbuf (snd (TBufferedTransport_cstringio_refill T prefix reqlen bt)) = b_wbuf bt \<and>
    (pos (b_wbuf bt) = length (getvalue (b_wbuf bt)) \<longrightarrow>
       TBufferedTransport_write (PyBytes d) bt =
         (Inr (), bt\<lparr>b_wbuf := \<lparr>getvalue = getvalue (b_wbuf bt) @ d,
                                 pos = length (getvalue (b_wbuf bt) @ d)\<rparr>\<rparr>)) \<and>
    TBufferedTransport_write PyOther bt = (Inl TypeError, bt\<lparr>b_wbuf := BufferIO_new []\<rparr>) \<and>
    b_wbuf (snd (TBufferedTransport_flush T bt)) = BufferIO_new [] \<and>
    (b_trans bt' = (s, log) \<longrightarrow>
       snd (b_trans (snd (TBufferedTransport_flush (traced T) bt'))) =
         (case fst (t_write T (getvalue (b_wbuf bt')) s) of
            Inr u \<Rightarrow> log @ [Write (getvalue (b_wbuf bt')), Flush]
          | Inl e \<Rightarrow> log @ [Write (getvalue (b_wbuf bt'))]))) \<and>
   (f_wbuf (snd (TFramedTransport_isOpen T ft)) = f_wbuf ft \<and>
    f_wbuf (snd (TFramedTransport_open T ft)) = f_wbuf ft \<and>
    f_wbuf (snd (TFramedTransport_close T ft)) = f_wbuf ft \<and>
    f_wbuf (snd (TFramedTransport_readFrame T ft)) = f_wbuf ft \<and>
    f_wbuf (snd (TFramedTransport_read T sz ft)) = f_wbuf ft \<and>
    (\<forall>y. TFramedTransport_cstringio_refill T prefix reqlen ft = Some y \<longrightarrow>
         f_wbuf (snd y) = f_wbuf ft) \<and>
    (pos (f_wbuf ft) = length (getvalue (f_wbuf ft)) \<longrightarrow>
       TFramedTransport_write (PyBytes d) ft =
         (Inr (), ft\<lparr>f_wbuf := \<lparr>getvalue = getvalue (f_wbuf ft) @ d,
                                 pos = length (getvalue (f_wbuf ft) @ d)\<rparr>\<rparr>)) \<and>
    TFramedTransport_write PyOther ft = (Inl TypeError, ft) \<and>
    f_wbuf (snd (TFramedTransport_flush T ft)) = BufferIO_new [] \<and>
    (f_trans ft' = (s, log) \<longrightarrow>
       snd (f_trans (snd (TFramedTransport_flush (traced T) ft'))) =
         (if length (getvalue (f_wbuf ft')) < 2147483648 then
            (case fst (t_write T (frame (getvalue (f_wbuf ft'))) s) of
               Inr u \<Rightarrow> log @ [Write (frame (getvalue (f_wbuf ft'))), Flush]
             | Inl e \<Rightarrow> log @ [Write (frame (getvalue (f_wbuf ft')))])
          else log))) \<and>
   (s_wbuf (snd (send_sasl_msg T status body sa)) = s_wbuf sa \<and>
    s_wbuf (snd (recv_sasl_msg T sa)) = s_wbuf sa \<and>
    (\<forall>y. TSaslClientTransport_open T S sa = Some y \<longrightarrow> s_wbuf (snd y) = s_wbuf sa) \<and>
    s_wbuf (snd (TSaslClientTransport_close T S sa)) = s_wbuf sa \<and>
    s_wbuf (snd (TSaslClientTransport_read_frame T S sa)) = s_wbuf sa \<and>
    s_wbuf (snd (TSaslClientTransport_read T S sz sa)) = s_wbuf sa \<and>
    (\<forall>y. TSaslClientTransport_cstringio_refill T S prefix reqlen sa = Some y \<longrightarrow>
         s_wbuf (snd y) = s_wbuf sa) \<and>
    (pos (s_wbuf sa) = length (getvalue (s_wbuf sa)) \<longrightarrow>
       TSaslClientTransport_write (PyBytes d) sa =
         (Inr (), sa\<lparr>s_wbuf := \<lparr>getvalue = getvalue (s_wbuf sa) @ d,
                                 pos = length (getvalue (s_wbuf sa) @ d)\<rparr>\<rparr>)) \<and>
    TSaslClientTransport_write PyOther sa = (Inl TypeError, sa) \<and>
    (case fst (TSaslClientTransport_flush T S sa) of
       Inr u \<Rightarrow> s_wbuf (snd (TSaslClientTransport_flush T S sa)) = BufferIO_new []
     | Inl e \<Rightarrow> s_wbuf (snd (TSaslClientTransport_flush T S sa)) = s_wbuf sa) \<and>
    (transport sa' = (s, log) \<longrightarrow>
       snd (transport (snd (TSaslClientTransport_flush (traced T) S sa'))) = log \<or>
       (\<exists>encoded a. sasl_wrap S (getvalue (s_wbuf sa')) (sasl sa') = (Inr encoded, a) \<and>
          (snd (transport (snd (TSaslClientTransport_flush (traced T) S sa')))
             = log @ [Write (frame encoded)] \<or>
           snd (transport (snd (TSaslClientTransport_flush (traced T) S sa')))
             = log @ [Write (frame encoded), Flush]))))"
proof (intro conjI)
  show "b_wbuf (snd (TBufferedTransport_isOpen T bt)) = b_wbuf bt"
    "b_wbuf (snd (TBufferedTransport_open T bt)) = b_wbuf bt"
    "b_wbuf (snd (TBufferedTransport_close T bt)) = b_wbuf bt"
    "b_wbuf (snd (TBufferedTransport_read T sz bt)) = b_wbuf bt"
    "b_wbuf (snd (TBufferedTransport_cstringio_refill T prefix reqlen bt)) = b_wbuf bt"
    by (rule TBufferedTransport_keeps_wbuf)+
  show "pos (b_wbuf bt) = length (getvalue (b_wbuf bt)) \<longrightarrow>
       TBufferedTransport_write (PyBytes d) bt =
         (Inr (), bt\<lparr>b_wbuf := \<lparr>getvalue = getvalue (b_wbuf bt) @ d,
                                 pos = length (getvalue (b_wbuf bt) @ d)\<rparr>\<rparr>)"
    by (simp add: TBufferedTransport_write_def BufferIO_write_append)
  show "TBufferedTransport_write PyOther bt = (Inl TypeError, bt\<lparr>b_wbuf := BufferIO_new []\<rparr>)"
    by (simp add: TBufferedTransport_write_def BufferIO_write_def)
  show "b_wbuf (snd (TBufferedTransport_flush T bt)) = BufferIO_new []"
    by (simp add: TBufferedTransport_flush_def Let_def split: prod.splits sum.splits)
  show "b_trans bt' = (s, log) \<longrightarrow>
       snd (b_trans (snd (TBufferedTransport_flush (traced T) bt'))) =
         (case fst (t_write T (getvalue (b_wbuf bt')) s) of
            Inr u \<Rightarrow> log @ [Write (getvalue (b_wbuf bt')), Flush]
          | Inl e \<Rightarrow> log @ [Write (getvalue (b_wbuf bt'))])"
    by (simp add: TBufferedTransport_flush_def traced_def Let_def split: prod.splits sum.splits)
  show "f_wbuf (snd (TFramedTransport_isOpen T ft)) = f_wbuf ft"
    "f_wbuf (snd (TFramedTransport_open T ft)) = f_wbuf ft"
    "f_wbuf (snd (TFramedTransport_close T ft)) = f_wbuf ft"
    "f_wbuf (snd (TFramedTransport_read T sz ft)) = f_wbuf ft"
    by (rule TFramedTransport_keeps_wbuf)+
  show "f_wbuf (snd (TFramedTransport_readFrame T ft)) = f_wbuf ft"
    by (rule TFramedTransport_readFrame_keeps_wbuf)
  show "\<forall>y. TFramedTransport_cstringio_refill T prefix reqlen ft = Some y \<longrightarrow>
         f_wbuf (snd y) = f_wbuf ft"
    by (blast intro: TFramedTransport_cstringio_refill_keeps_wbuf)
  show "pos (f_wbuf ft) = length (getvalue (f_wbuf ft)) \<longrightarrow>
       TFramedTransport_write (PyBytes d) ft =
         (Inr (), ft\<lparr>f_wbuf := \<lparr>getvalue = getvalue (f_wbuf ft) @ d,
                                 pos = length (getvalue (f_wbuf ft) @ d)\<rparr>\<rparr>)"
    by (simp add: TFramedTransport_write_def BufferIO_write_append)
  show "TFramedTransport_write PyOther ft = (Inl TypeError, ft)"
    by (simp add: TFramedTransport_write_def BufferIO_write_def)
  show "f_wbuf (snd (TFramedTransport_flush T ft)) = BufferIO_new []"
    by (simp add: TFramedTransport_flush_def Let_def split: prod.splits sum.splits)
  show "f_trans ft' = (s, log) \<longrightarrow>
       snd (f_trans (snd (TFramedTransport_flush (traced T) ft'))) =
         (if length (getvalue (f_wbuf ft')) < 2147483648 then
            (case fst (t_write T (frame (getvalue (f_wbuf ft'))) s) of
               Inr u \<Rightarrow> log @ [Write (frame (getvalue (f_wbuf ft'))), Flush]
             | Inl e \<Rightarrow> log @ [Write (frame (getvalue (f_wbuf ft')))])
          else log)"
    by (simp add: TFramedTransport_flush_def traced_def Let_def pack_i_def frame_def
        split: prod.splits sum.splits)
  show "s_wbuf (snd (send_sasl_msg T status body sa)) = s_wbuf sa"
    by (rule send_sasl_msg_keeps_wbuf)
  show "s_wbuf (snd (recv_sasl_msg T sa)) = s_wbuf sa"
    by (rule recv_sasl_msg_keeps_wbuf)
  show "\<forall>y. TSaslClientTransport_open T S sa = Some y \<longrightarrow> s_wbuf (snd y) = s_wbuf sa"
    by (blast intro: TSaslClientTransport_open_keeps_wbuf)
  show "s_wbuf (snd (TSaslClientTransport_close T S sa)) = s_wbuf sa"
    by (rule TSaslClientTransport_close_keeps_wbuf)
  show "s_wbuf (snd (TSaslClientTransport_read_frame T S sa)) = s_wbuf sa"
    by (rule TSaslClientTransport_read_frame_keeps_wbuf)
  show "s_wbuf (snd (TSaslClientTransport_read T S sz sa)) = s_wbuf sa"
    by (rule TSaslClientTransport_read_keeps_wbuf)
  show "\<forall>y. TSaslClientTransport_cstringio_refill T S prefix reqlen sa = Some y \<longrightarrow>
         s_wbuf (snd y) = s_wbuf sa"
    by (blast intro: TSaslClientTransport_cstringio_refill_keeps_wbuf)
  show "pos (s_wbuf sa) = length (getvalue (s_wbuf sa)) \<longrightarrow>
       TSaslClientTransport_write (PyBytes d) sa =
         (Inr (), sa\<lparr>s_wbuf := \<lparr>getvalue = getvalue (s_wbuf sa) @ d,
                                 pos = length (getvalue (s_wbuf sa) @ d)\<rparr>\<rparr>)"
    by (simp add: TSaslClientTransport_write_def BufferIO_write_append)
  show "TSaslClientTransport_write PyOther sa = (Inl TypeError, sa)"
    by (simp add: TSaslClientTransport_write_def BufferIO_write_def)
  show "case fst (TSaslClientTransport_flush T S sa) of
       Inr u \<Rightarrow> s_wbuf (snd (TSaslClientTransport_flush T S sa)) = BufferIO_new []
     | Inl e \<Rightarrow> s_wbuf (snd (TSaslClientTransport_flush T S sa)) = s_wbuf sa"
    by (simp add: TSaslClientTransport_flush_result split: prod.splits sum.splits)
  show "transport sa' = (s, log) \<longrightarrow>
       snd (transport (snd (TSaslClientTransport_flush (traced T) S sa'))) = log \<or>
       (\<exists>encoded a. sasl_wrap S (getvalue (s_wbuf sa')) (sasl sa') = (Inr encoded, a) \<and>
          (snd (transport (snd (TSaslClientTransport_flush (traced T) S sa')))
             = log @ [Write (frame encoded)] \<or>
           snd (transport (snd (TSaslClientTransport_flush (traced T) S sa')))
             = log @ [Write (frame encoded), Flush]))"
  proof
    assume t: "transport sa' = (s, log)"
    have "transport (snd (TSaslClientTransport_flush (traced T) S sa')) = transport sa'"
      by (simp add: TSaslClientTransport_flush_result split: prod.splits sum.splits)
    with t show "snd (transport (snd (TSaslClientTransport_flush (traced T) S sa'))) = log \<or>
       (\<exists>encoded a. sasl_wrap S (getvalue (s_wbuf sa')) (sasl sa') = (Inr encoded, a) \<and>
          (snd (transport (snd (TSaslClientTransport_flush (traced T) S sa')))
             = log @ [Write (frame encoded)] \<or>
           snd (transport (snd (TSaslClientTransport_flush (traced T) S sa')))
             = log @ [Write (frame encoded), Flush]))"
      by simp
  qed
qed

theorem write_buffer_cleared_only_by_flush_witness:
  "b_wbuf (snd (TBufferedTransport_read TMemoryBuffer_transport 2
          \<lparr>b_trans = TMemoryBuffer_init (Some [7, 8, 9]) 0,
           b_wbuf = \<lparr>getvalue = [1, 2, 3], pos = 3\<rparr>,
           b_rbuf = BufferIO_new [], b_rbuf_size = DEFAULT_BUFFER\<rparr>))
     = \<lparr>getvalue = [1, 2, 3], pos = 3\<rparr> \<and>
   TBufferedTransport_write (PyBytes [4])
          \<lparr>b_trans = TMemoryBuffer_init (Some [7, 8, 9]) 0,
           b_wbuf = \<lparr>getvalue = [1, 2, 3], pos = 3\<rparr>,
           b_rbuf = BufferIO_new [], b_rbuf_size = DEFAULT_BUFFER\<rparr>
     = (Inr (), \<lparr>b_trans = TMemoryBuffer_init (Some [7, 8, 9]) 0,
           b_wbuf = \<lparr>getvalue = [1, 2, 3, 4], pos = 4\<rparr>,
           b_rbuf = BufferIO_new [], b_rbuf_size = DEFAULT_BUFFER\<rparr>) \<and>
   TBufferedTransport_write PyOther
          \<lparr>b_trans = TMemoryBuffer_init (Some [7, 8, 9]) 0,
           b_wbuf = \<lparr>getvalue = [1, 2, 3], pos = 3\<rparr>,
           b_rbuf = BufferIO_new [], b_rbuf_size = DEFAULT_BUFFER\<rparr>
     = (Inl TypeError, \<lparr>b_trans = TMemoryBuffer_init (Some [7, 8, 9]) 0,
           b_wbuf = BufferIO_new [],
           b_rbuf = BufferIO_new [], b_rbuf_size = DEFAULT_BUFFER\<rparr>) \<and>
   snd (b_trans (snd (TBufferedTransport_flush (traced TMemoryBuffer_transport)
          \<lparr>b_trans = (TMemoryBuffer_init None 0, []),
           b_wbuf = \<lparr>getvalue = [1, 2, 3], pos = 3\<rparr>,
           b_rbuf = BufferIO_new [], b_rbuf_size = DEFAULT_BUFFER\<rparr>)))
     = [Write [1, 2, 3], Flush] \<and>
   snd (f_trans (snd (TFramedTransport_flush (traced TMemoryBuffer_transport)
          \<lparr>f_trans = (TMemoryBuffer_init None 0, []), f_rbuf = BufferIO_new [],
           f_wbuf = \<lparr>getvalue = [1, 2, 3], pos = 3\<rparr>\<rparr>)))
     = [Write [0, 0, 0, 3, 1, 2, 3], Flush] \<and>
   TFramedTransport_cstringio_refill TMemoryBuffer_transport [5, 6] 2
          \<lparr>f_trans = TMemoryBuffer_init (Some [7, 8, 9]) 0, f_rbuf = BufferIO_new [],
           f_wbuf = \<lparr>getvalue = [1, 2, 3], pos = 3\<rparr>\<rparr>
     = Some (Inr (BufferIO_new [5, 6]),
          \<lparr>f_trans = TMemoryBuffer_init (Some [7, 8, 9]) 0, f_rbuf = BufferIO_new [5, 6],
           f_wbuf = \<lparr>getvalue = [1, 2, 3], pos = 3\<rparr>\<rparr>) \<and>
   fst (TSaslClientTransport_flush TMemoryBuffer_transport plain_sasl
          \<lparr>transport = TMemoryBuffer_init None 0, sasl = (),
           s_wbuf = \<lparr>getvalue = [1, 2, 3], pos = 3\<rparr>, s_rbuf = BufferIO_new []\<rparr>) = Inl TypeError \<and>
   s_wbuf (snd (TSaslClientTransport_flush TMemoryBuffer_transport plain_sasl
          \<lparr>transport = TMemoryBuffer_init None 0, sasl = (),
           s_wbuf = \<lparr>getvalue = [1, 2, 3], pos = 3\<rparr>, s_rbuf = BufferIO_new []\<rparr>))
     = \<lparr>getvalue = [1, 2, 3], pos = 3\<rparr>"
proof -
  let ?bt = "\<lparr>b_trans = TMemoryBuffer_init (Some [7, 8, 9]) 0,
           b_wbuf = \<lparr>getvalue = [1, 2, 3], pos = 3\<rparr>,
           b_rbuf = BufferIO_new [], b_rbuf_size = DEFAULT_BUFFER\<rparr>"
  let ?bt' = "\<lparr>b_trans = (TMemoryBuffer_init None 0, [] :: call list),
           b_wbuf = \<lparr>getvalue = [1, 2, 3], pos = 3\<rparr>,
           b_rbuf = BufferIO_new [], b_rbuf_size = DEFAULT_BUFFER\<rparr>"
  let ?ft = "\<lparr>f_trans = TMemoryBuffer_init (Some [7, 8, 9]) 0, f_rbuf = BufferIO_new [],
           f_wbuf = \<lparr>getvalue = [1, 2, 3], pos = 3\<rparr>\<rparr>"
  let ?ft' = "\<lparr>f_trans = (TMemoryBuffer_init None 0, [] :: call list), f_rbuf = BufferIO_new [],
           f_wbuf = \<lparr>getvalue = [1, 2, 3], pos = 3\<rparr>\<rparr>"
  let ?sa = "\<lparr>transport = TMemoryBuffer_init None 0, sasl = (),
           s_wbuf = \<lparr>getvalue = [1, 2, 3], pos = 3\<rparr>, s_rbuf = BufferIO_new []\<rparr>"
  note th = write_buffer_cleared_only_by_flush[where T = TMemoryBuffer_transport
      and S = plain_sasl and bt = ?bt and bt' = ?bt' and ft = ?ft and ft' = ?ft' and sa = ?sa
      and s = "TMemoryBuffer_init None 0" and log = "[]" and sz = 2 and d = "[4]"
      and prefix = "[5, 6]" and reqlen = 2]
  have p: "pos (b_wbuf ?bt) = length (getvalue (b_wbuf ?bt))" by simp
  have tb: "b_trans ?bt' = (TMemoryBuffer_init None 0, [])" by simp
  have tf: "f_trans ?ft' = (TMemoryBuffer_init None 0, [])" by simp
  have w1: "fst (t_write TMemoryBuffer_transport [1, 2, 3] (TMemoryBuffer_init None 0)) = Inr ()"
    by (simp add: TMemoryBuffer_transport_def TMemoryBuffer_write_def TMemoryBuffer_init_def
        BufferIO_write_def BufferIO_new_def)
  have w2: "fst (t_write TMemoryBuffer_transport (frame [1, 2, 3]) (TMemoryBuffer_init None 0)) = Inr ()"
    by (simp add: TMemoryBuffer_transport_def TMemoryBuffer_write_def TMemoryBuffer_init_def
        BufferIO_write_def frame_def)
  have rf: "TFramedTransport_cstringio_refill TMemoryBuffer_transport [5, 6] 2 ?ft
      = Some (Inr (BufferIO_new [5, 6]), ?ft\<lparr>f_rbuf := BufferIO_new [5, 6]\<rparr>)"
    by (subst TFramedTransport_cstringio_refill.simps) simp
  have fl: "fst (TSaslClientTransport_flush TMemoryBuffer_transport plain_sasl ?sa) = Inl TypeError"
    by (simp add: TSaslClientTransport_flush_def plain_sasl_def pack_i_def str_join_def Let_def)
  from th p tb tf w1 w2 rf fl show ?thesis
    by (simp add: frame_def be32_def)
qed

subsection \<open>\<^verbatim>\<open>TFramedTransport\<close>: the round trip\<close>

text \<open>
  Claim C1 says that every byte sequence, cut into messages in any way, comes back from a
  round trip. A message of \<open>2\<^sup>3\<^sup>1\<close> bytes does not: its length does not fit the signed
  four-byte field, \<^verbatim>\<open>pack\<close> raises \<^verbatim>\<open>struct.error\<close> in \<^verbatim>\<open>flush\<close>, nothing is written, and the
  peer reads nothing.
\<close>

theorem TFramedTransport_round_trip_counterexample:
  "fst (send_all TMemoryBuffer_transport [replicate 2147483648 0]
          (TFramedTransport_init (TMemoryBuffer_init None 0))) = Inl struct_error \<and>
   TMemoryBuffer_getvalue (f_trans (snd (send_all TMemoryBuffer_transport [replicate 2147483648 0]
          (TFramedTransport_init (TMemoryBuffer_init None 0))))) = Inr [] \<and>
   read_until_EOF TMemoryBuffer_transport 1 []
       (TFramedTransport_init (TMemoryBuffer_init (Some []) 0))
     = Some (Inr [], TFramedTransport_init (TMemoryBuffer_init (Some []) 0))"
proof -
  have "send_all TMemoryBuffer_transport [replicate 2147483648 0]
          (TFramedTransport_init (TMemoryBuffer_init None 0))
        = (Inl struct_error, TFramedTransport_init (TMemoryBuffer_init None 0))"
    by (simp add: TFramedTransport_write_def TFramedTransport_flush_def TFramedTransport_init_def
        BufferIO_write_def BufferIO_new_def pack_i_def Let_def)
  moreover have "TMemoryBuffer_getvalue (f_trans (TFramedTransport_init (TMemoryBuffer_init None 0)))
        = Inr []"
    by (simp add: TMemoryBuffer_getvalue_def TFramedTransport_init_def TMemoryBuffer_init_def
        BufferIO_new_def)
  moreover have "TFramedTransport_read TMemoryBuffer_transport 1
       (TFramedTransport_init (TMemoryBuffer_init (Some []) 0))
     = (Inl EOFError, TFramedTransport_init (TMemoryBuffer_init (Some []) 0))"
    by (simp add: TFramedTransport_read_def TFramedTransport_readFrame_def readAll_def
        readAll_loop.simps TFramedTransport_init_def TMemoryBuffer_init_def BufferIO_new_def
        BufferIO_read_def TMemoryBuffer_transport_def TMemoryBuffer_read_def Let_def)
  then have "read_until_EOF TMemoryBuffer_transport 1 []
       (TFramedTransport_init (TMemoryBuffer_init (Some []) 0))
     = Some (Inr [], TFramedTransport_init (TMemoryBuffer_init (Some []) 0))"
    by (subst read_until_EOF.simps) simp
  ultimately show ?thesis by simp
qed

text \<open>
  In general: a flush of \<open>2\<^sup>3\<^sup>1\<close> bytes or more raises \<^verbatim>\<open>struct.error\<close>, with the write buffer
  emptied and the inner transport not called.
\<close>

lemma TFramedTransport_flush_too_long:
  "2147483648 \<le> length (getvalue (f_wbuf st)) \<Longrightarrow>
   TFramedTransport_flush T st = (Inl struct_error, st\<lparr>f_wbuf := BufferIO_new []\<rparr>)"
  by (simp add: TFramedTransport_flush_def Let_def pack_i_def)

lemma send_all_sink:
  assumes snk: "byte_sink T W"
  shows "\<forall>m \<in> set msgs. length m < 2147483648 \<Longrightarrow> W (f_trans st) b \<Longrightarrow>
     f_wbuf st = BufferIO_new [] \<Longrightarrow>
     \<exists>st'. send_all T msgs st = (Inr (), st') \<and> W (f_trans st') (b @ concat (map frame msgs)) \<and>
           f_wbuf st' = BufferIO_new []"
proof (induction msgs arbitrary: st b)
  case Nil
  then show ?case by simp
next
  case (Cons m ms)
  from Cons.prems(1) have lm: "length m < 2147483648" by simp
  have pk: "pack_i (int (length m)) = Inr (be32 (int (length m)))"
    using lm by (intro pack_i_nonneg) auto
  from byte_sinkD[OF snk Cons.prems(2), of "frame m"] obtain s1 s2 where
    tw: "t_write T (frame m) (f_trans st) = (Inr (), s1)" and tf: "t_flush T s1 = (Inr (), s2)"
    and W2: "W s2 (b @ frame m)" by blast
  let ?st2 = "st\<lparr>f_wbuf := BufferIO_new [], f_trans := s2\<rparr>"
  have wf: "\<exists>st1. TFramedTransport_write (PyBytes m) st = (Inr (), st1) \<and>
      TFramedTransport_flush T st1 = (Inr (), ?st2)"
  proof (cases "m = []")
    case True
    then have "TFramedTransport_write (PyBytes m) st = (Inr (), st)"
      using Cons.prems(3) by (simp add: TFramedTransport_write_def BufferIO_write_def)
    moreover have "TFramedTransport_flush T st = (Inr (), ?st2)"
      using tw tf True Cons.prems(3) pk
      by (simp add: TFramedTransport_flush_def Let_def frame_def BufferIO_new_def)
    ultimately show ?thesis by blast
  next
    case False
    let ?st1 = "st\<lparr>f_wbuf := \<lparr>getvalue = m, pos = length m\<rparr>\<rparr>"
    from False have "TFramedTransport_write (PyBytes m) st = (Inr (), ?st1)"
      using Cons.prems(3)
      by (simp add: TFramedTransport_write_def BufferIO_write_def BufferIO_new_def)
    moreover have "TFramedTransport_flush T ?st1 = (Inr (), ?st2)"
      using tw tf pk by (simp add: TFramedTransport_flush_def Let_def frame_def)
    ultimately show ?thesis by blast
  qed
  from Cons.prems(1) have lms: "\<forall>m \<in> set ms. length m < 2147483648" by simp
  have "W (f_trans ?st2) (b @ frame m)" "f_wbuf ?st2 = BufferIO_new []" using W2 by simp_all
  from Cons.IH[OF lms this] obtain st' where
    "send_all T ms ?st2 = (Inr (), st')" "W (f_trans st') ((b @ frame m) @ concat (map frame ms))"
    "f_wbuf st' = BufferIO_new []" by blast
  then show ?case using wf by auto
qed

lemma read_until_EOF_rbuf:
  assumes src: "byte_source T R" and sz: "sz \<noteq> 0"
    and E: "\<And>st acc. length (getvalue (f_rbuf st)) \<le> pos (f_rbuf st) \<Longrightarrow> R (f_trans st) p \<Longrightarrow>
              \<exists>st'. read_until_EOF T sz acc st = Some (Inr (acc @ after), st')"
  shows "R (f_trans st) p \<Longrightarrow>
     \<exists>st'. read_until_EOF T sz acc st
            = Some (Inr (acc @ drop (pos (f_rbuf st)) (getvalue (f_rbuf st)) @ after), st')"
proof (induction "length (drop (pos (f_rbuf st)) (getvalue (f_rbuf st)))" arbitrary: st acc
    rule: less_induct)
  case less
  let ?rest = "drop (pos (f_rbuf st)) (getvalue (f_rbuf st))"
  show ?case
  proof (cases "?rest = []")
    case True
    then have "length (getvalue (f_rbuf st)) \<le> pos (f_rbuf st)" by simp
    from E[OF this less.prems, of acc] True show ?thesis by simp
  next
    case False
    obtain ret b' where rd: "BufferIO_read sz (f_rbuf st) = (ret, b')"
      by (cases "BufferIO_read sz (f_rbuf st)")
    from BufferIO_read_nonempty[OF sz False] rd have ne: "ret \<noteq> []" by simp
    from BufferIO_read_split[OF rd] have sp: "?rest = ret @ drop (pos b') (getvalue b')" .
    let ?st1 = "st\<lparr>f_rbuf := b'\<rparr>"
    have r1: "TFramedTransport_read T sz st = (Inr ret, ?st1)"
      using rd ne by (simp add: TFramedTransport_read_def)
    have unf: "read_until_EOF T sz acc st = read_until_EOF T sz (acc @ ret) ?st1"
      by (subst read_until_EOF.simps) (simp add: r1)
    have lt: "length (drop (pos (f_rbuf ?st1)) (getvalue (f_rbuf ?st1))) < length ?rest"
      using sp ne by (simp del: length_drop) 
    have R1: "R (f_trans ?st1) p" using less.prems by simp
    from less.hyps[OF lt R1, of "acc @ ret"] obtain st' where
      "read_until_EOF T sz (acc @ ret) ?st1 =
         Some (Inr ((acc @ ret) @ drop (pos b') (getvalue b') @ after), st')" by auto
    with unf sp show ?thesis by simp
  qed
qed

lemma read_until_EOF_frames:
  assumes src: "byte_source T R" and sz: "sz \<noteq> 0"
  shows "\<forall>m \<in> set msgs. length m < 2147483648 \<Longrightarrow>
     length (getvalue (f_rbuf st)) \<le> pos (f_rbuf st) \<Longrightarrow>
     R (f_trans st) (concat (map frame msgs)) \<Longrightarrow>
     \<exists>st'. read_until_EOF T sz acc st = Some (Inr (acc @ concat msgs), st')"
proof (induction msgs arbitrary: st acc)
  case Nil
  have rd0: "BufferIO_read sz (f_rbuf st) = ([], f_rbuf st)"
    using Nil.prems(2) by (rule BufferIO_read_exhausted)
  from Nil.prems(3) have R: "R (f_trans (st\<lparr>f_rbuf := f_rbuf st\<rparr>)) []" by simp
  from TFramedTransport_readFrame_cut_off[OF src R cut_off_Nil] obtain st' where
    "TFramedTransport_readFrame T (st\<lparr>f_rbuf := f_rbuf st\<rparr>) = (Inl EOFError, st')" by blast
  then have "TFramedTransport_read T sz st = (Inl EOFError, st')"
    by (simp add: TFramedTransport_read_def rd0)
  then have "read_until_EOF T sz acc st = Some (Inr acc, st')"
    by (subst read_until_EOF.simps) simp
  then show ?case by simp
next
  case (Cons m ms)
  have rd0: "BufferIO_read sz (f_rbuf st) = ([], f_rbuf st)"
    using Cons.prems(2) by (rule BufferIO_read_exhausted)
  from Cons.prems have R: "R (f_trans (st\<lparr>f_rbuf := f_rbuf st\<rparr>)) (frame m @ concat (map frame ms))"
    and lm: "length m < 2147483648" and lms: "\<forall>m \<in> set ms. length m < 2147483648"
    by simp_all
  from TFramedTransport_readFrame_frame[OF src R lm] obtain t' where
    rf: "TFramedTransport_readFrame T (st\<lparr>f_rbuf := f_rbuf st\<rparr>) =
           (Inr (), st\<lparr>f_rbuf := f_rbuf st\<rparr>\<lparr>f_trans := t', f_rbuf := BufferIO_new m\<rparr>)"
    and R': "R t' (concat (map frame ms))" by blast
  obtain ret2 rb2 where rd2: "BufferIO_read sz (BufferIO_new m) = (ret2, rb2)"
    by (cases "BufferIO_read sz (BufferIO_new m)")
  let ?st2 = "st\<lparr>f_trans := t', f_rbuf := rb2\<rparr>"
  have r1: "TFramedTransport_read T sz st = (Inr ret2, ?st2)"
    using rf by (simp add: TFramedTransport_read_def rd0 rd2)
  have unf: "read_until_EOF T sz acc st = read_until_EOF T sz (acc @ ret2) ?st2"
    by (subst read_until_EOF.simps) (simp add: r1)
  from BufferIO_read_split[OF rd2] have sp: "m = ret2 @ drop (pos rb2) (getvalue rb2)"
    by (simp add: BufferIO_new_def)
  have R2: "R (f_trans ?st2) (concat (map frame ms))" using R' by simp
  have E: "\<And>st acc. length (getvalue (f_rbuf st)) \<le> pos (f_rbuf st) \<Longrightarrow>
              R (f_trans st) (concat (map frame ms)) \<Longrightarrow>
              \<exists>st'. read_until_EOF T sz acc st = Some (Inr (acc @ concat ms), st')"
    using Cons.IH[OF lms] by blast
  from read_until_EOF_rbuf[OF src sz E R2, of "acc @ ret2"] obtain st' where
    "read_until_EOF T sz (acc @ ret2) ?st2 =
       Some (Inr ((acc @ ret2) @ drop (pos rb2) (getvalue rb2) @ concat ms), st')"
    by auto
  with unf sp show ?case by (metis append.assoc concat.simps(2))
qed

text \<open>
  Claim C1, as the code has it. The writer's inner transport collects what is written to
  it (\<open>byte_sink\<close>), the reader's inner transport delivers bytes, short reads included
  (\<open>byte_source\<close>), and what the reader's end holds is what the writer's end has collected
  after the sending (the shared channel). Then for every list of messages, each shorter
  than \<open>2\<^sup>3\<^sup>1\<close> bytes, empty ones included: every \<^verbatim>\<open>write\<close> and \<^verbatim>\<open>flush\<close> of the writer
  returns, and a reader that calls \<^verbatim>\<open>read(sz)\<close>, with any \<open>sz\<close> other than 0, until
  \<^verbatim>\<open>EOFError\<close>, returns, and has collected exactly the concatenation of the messages.
\<close>

theorem TFramedTransport_round_trip:
  assumes "byte_sink Tw W" and "W w0 []"
    and "byte_source Tr R"
    and "\<forall>b. W (f_trans (snd (send_all Tw msgs (TFramedTransport_init w0)))) b \<longrightarrow> R r0 b"
    and "\<forall>m \<in> set msgs. length m < 2147483648"
    and "sz \<noteq> 0"
  shows "fst (send_all Tw msgs (TFramedTransport_init w0)) = Inr () \<and>
         (\<exists>st'. read_until_EOF Tr sz [] (TFramedTransport_init r0) = Some (Inr (concat msgs), st'))"
proof -
  have "W (f_trans (TFramedTransport_init w0)) []" "f_wbuf (TFramedTransport_init w0) = BufferIO_new []"
    using assms(2) by (simp_all add: TFramedTransport_init_def)
  from send_all_sink[OF assms(1,5) this] obtain stw where
    s: "send_all Tw msgs (TFramedTransport_init w0) = (Inr (), stw)"
    and W: "W (f_trans stw) (concat (map frame msgs))" by auto
  with assms(4) have R: "R r0 (concat (map frame msgs))" by simp
  have "length (getvalue (f_rbuf (TFramedTransport_init r0))) \<le> pos (f_rbuf (TFramedTransport_init r0))"
    "R (f_trans (TFramedTransport_init r0)) (concat (map frame msgs))"
    using R by (simp_all add: TFramedTransport_init_def BufferIO_new_def)
  from read_until_EOF_frames[OF assms(3,6,5) this, of "[]"] s show ?thesis by simp
qed

theorem TFramedTransport_round_trip_witness:
  "byte_sink TMemoryBuffer_transport TMemoryBuffer_written \<and>
   TMemoryBuffer_written (TMemoryBuffer_init None 0) [] \<and>
   byte_source TMemoryBuffer_transport TMemoryBuffer_pending \<and>
   list_all (\<lambda>m. length m < 2147483648) [[1, 2], [], [3 :: byte]] \<and>
   TMemoryBuffer_getvalue (f_trans (snd (send_all TMemoryBuffer_transport [[1, 2], [], [3]]
       (TFramedTransport_init (TMemoryBuffer_init None 0)))))
     = Inr [0, 0, 0, 2, 1, 2, 0, 0, 0, 0, 0, 0, 0, 1, 3] \<and>
   fst (send_all TMemoryBuffer_transport [[1, 2], [], [3]]
          (TFramedTransport_init (TMemoryBuffer_init None 0))) = Inr () \<and>
   (\<exists>st'. read_until_EOF TMemoryBuffer_transport 2 []
            (TFramedTransport_init
               (TMemoryBuffer_init (Some [0, 0, 0, 2, 1, 2, 0, 0, 0, 0, 0, 0, 0, 1, 3]) 0))
          = Some (Inr (concat [[1, 2], [], [3]]), st'))"
proof -
  let ?msgs = "[[1, 2], [], [3]] :: bytes list"
  let ?v = "[0, 0, 0, 2, 1, 2, 0, 0, 0, 0, 0, 0, 0, 1, 3] :: bytes"
  have h1: "byte_sink TMemoryBuffer_transport TMemoryBuffer_written"
    by (rule TMemoryBuffer_byte_sink)
  have h2: "TMemoryBuffer_written (TMemoryBuffer_init None 0) []"
    by (rule TMemoryBuffer_written_init)
  have h3: "byte_source TMemoryBuffer_transport TMemoryBuffer_pending"
    by (rule TMemoryBuffer_byte_source)
  have ev: "f_trans (snd (send_all TMemoryBuffer_transport ?msgs
                (TFramedTransport_init (TMemoryBuffer_init None 0))))
            = \<lparr>buffer = \<lparr>getvalue = ?v, pos = 15\<rparr>, closed = False\<rparr>"
    by (simp add: TFramedTransport_write_def TFramedTransport_flush_def TFramedTransport_init_def
        BufferIO_write_def BufferIO_new_def pack_i_def be32_def Let_def TMemoryBuffer_transport_def
        TMemoryBuffer_write_def TMemoryBuffer_flush_def TMemoryBuffer_init_def)
  have h4: "\<forall>b. TMemoryBuffer_written (f_trans (snd (send_all TMemoryBuffer_transport ?msgs
                (TFramedTransport_init (TMemoryBuffer_init None 0))))) b
              \<longrightarrow> TMemoryBuffer_pending (TMemoryBuffer_init (Some ?v) 0) b"
    unfolding ev
    by (simp add: TMemoryBuffer_written_def TMemoryBuffer_pending_def TMemoryBuffer_init_def
        BufferIO_new_def)
  have h5: "\<forall>m \<in> set ?msgs. length m < 2147483648" by simp
  have h6: "(2::int) \<noteq> 0" by simp
  have gv: "TMemoryBuffer_getvalue (f_trans (snd (send_all TMemoryBuffer_transport ?msgs
       (TFramedTransport_init (TMemoryBuffer_init None 0))))) = Inr ?v"
    unfolding ev by (simp add: TMemoryBuffer_getvalue_def)
  have h5': "list_all (\<lambda>m. length m < 2147483648) ?msgs" by simp
  from TFramedTransport_round_trip[OF h1 h2 h3 h4 h5 h6] h1 h2 h3 h5' gv
  show ?thesis by blast
qed

text \<open>
  The reader has to ask for bytes. A \<^verbatim>\<open>read(0)\<close> returns nothing from the read buffer,
  so it reads the next frame in, and returns nothing of it either: a reader that calls
  \<^verbatim>\<open>read(0)\<close> until \<^verbatim>\<open>EOFError\<close> passes over the frame with payload 1, 2 and collects
  nothing.
\<close>

lemma read_until_EOF_zero_size:
  "read_until_EOF TMemoryBuffer_transport 0 []
       (TFramedTransport_init (TMemoryBuffer_init (Some [0, 0, 0, 2, 1, 2]) 0))
     = Some (Inr [],
         \<lparr>f_trans = \<lparr>buffer = \<lparr>getvalue = [0, 0, 0, 2, 1, 2], pos = 6\<rparr>, closed = False\<rparr>,
          f_rbuf = BufferIO_new [1, 2], f_wbuf = BufferIO_new []\<rparr>)"
proof -
  let ?st0 = "TFramedTransport_init (TMemoryBuffer_init (Some [0, 0, 0, 2, 1, 2]) 0)"
  let ?st1 = "\<lparr>f_trans = \<lparr>buffer = \<lparr>getvalue = [0, 0, 0, 2, 1, 2], pos = 6\<rparr>, closed = False\<rparr>,
          f_rbuf = BufferIO_new [1, 2], f_wbuf = BufferIO_new []\<rparr>"
  have r1: "TFramedTransport_read TMemoryBuffer_transport 0 ?st0 = (Inr [], ?st1)"
    by (simp add: TFramedTransport_read_def TFramedTransport_readFrame_def readAll_def
        readAll_loop.simps unpack_i_def be32_val_def TFramedTransport_init_def
        TMemoryBuffer_init_def BufferIO_new_def BufferIO_read_def TMemoryBuffer_transport_def
        TMemoryBuffer_read_def Let_def)
  have r2: "TFramedTransport_read TMemoryBuffer_transport 0 ?st1 = (Inl EOFError, ?st1)"
    by (simp add: TFramedTransport_read_def TFramedTransport_readFrame_def readAll_def
        readAll_loop.simps BufferIO_new_def BufferIO_read_def TMemoryBuffer_transport_def
        TMemoryBuffer_read_def Let_def)
  have "read_until_EOF TMemoryBuffer_transport 0 [] ?st0
        = read_until_EOF TMemoryBuffer_transport 0 [] ?st1"
    by (subst read_until_EOF.simps) (simp add: r1)
  also have "\<dots> = Some (Inr [], ?st1)"
    by (subst read_until_EOF.simps) (simp add: r2)
  finally show ?thesis .
qed

subsection \<open>\<^verbatim>\<open>TFramedTransport\<close>: the empty frame\<close>

text \<open>
  Claim C8. \<^verbatim>\<open>flush()\<close> with an empty write buffer makes one \<^verbatim>\<open>write\<close> call on the inner
  transport, of exactly the four bytes 0, 0, 0, 0 (and then one \<^verbatim>\<open>flush\<close> call, when that
  \<^verbatim>\<open>write\<close> returned). A peer whose read buffer is exhausted and whose inner transport
  holds this frame, then a frame with payload \<open>payload\<close>, then \<open>rest\<close>: its \<^verbatim>\<open>read(sz1)\<close>
  returns the empty byte string, for any \<open>sz1\<close>, having taken the four bytes and no more;
  its next \<^verbatim>\<open>read(sz2)\<close>, for a positive \<open>sz2\<close>, returns the first \<open>sz2\<close> bytes of \<open>payload\<close>:
  it has moved on to the following frame.
\<close>

theorem TFramedTransport_empty_frame:
  assumes "f_wbuf stw = BufferIO_new []" and "f_trans stw = (s, log)"
    and "byte_source T R" and "R (f_trans st) ([0, 0, 0, 0] @ frame payload @ rest)"
    and "length (getvalue (f_rbuf st)) \<le> pos (f_rbuf st)"
    and "length payload < 2147483648" and "0 < sz2"
  shows "snd (f_trans (snd (TFramedTransport_flush (traced Tw) stw))) =
           (case fst (t_write Tw [0, 0, 0, 0] s) of
              Inr u \<Rightarrow> log @ [Write [0, 0, 0, 0], Flush]
            | Inl e \<Rightarrow> log @ [Write [0, 0, 0, 0]]) \<and>
         (\<exists>st1 st2. TFramedTransport_read T sz1 st = (Inr [], st1) \<and>
           R (f_trans st1) (frame payload @ rest) \<and>
           TFramedTransport_read T sz2 st1 = (Inr (take (nat sz2) payload), st2) \<and>
           R (f_trans st2) rest)"
proof -
  have wr: "snd (f_trans (snd (TFramedTransport_flush (traced Tw) stw))) =
           (case fst (t_write Tw [0, 0, 0, 0] s) of
              Inr u \<Rightarrow> log @ [Write [0, 0, 0, 0], Flush]
            | Inl e \<Rightarrow> log @ [Write [0, 0, 0, 0]])"
    using assms(1,2)
    by (simp add: TFramedTransport_flush_def traced_def Let_def BufferIO_new_def pack_i_def be32_def
        split: prod.splits sum.splits)
  have rd0: "BufferIO_read sz1 (f_rbuf st) = ([], f_rbuf st)"
    using assms(5) by (rule BufferIO_read_exhausted)
  have R0: "R (f_trans (st\<lparr>f_rbuf := f_rbuf st\<rparr>)) (frame [] @ frame payload @ rest)"
    using assms(4) by (simp add: frame_Nil)
  from TFramedTransport_readFrame_frame[OF assms(3) R0] obtain t1 where
    f1: "TFramedTransport_readFrame T (st\<lparr>f_rbuf := f_rbuf st\<rparr>)
           = (Inr (), st\<lparr>f_rbuf := f_rbuf st\<rparr>\<lparr>f_trans := t1, f_rbuf := BufferIO_new []\<rparr>)"
    and R1: "R t1 (frame payload @ rest)" by auto
  let ?st1 = "st\<lparr>f_trans := t1, f_rbuf := BufferIO_new []\<rparr>"
  have rd1: "BufferIO_read sz (BufferIO_new []) = ([], BufferIO_new [])" for sz
    by (simp add: BufferIO_read_def BufferIO_new_def)
  have read1: "TFramedTransport_read T sz1 st = (Inr [], ?st1)"
    using f1 by (simp add: TFramedTransport_read_def rd0 rd1)
  have R1': "R (f_trans (?st1\<lparr>f_rbuf := BufferIO_new []\<rparr>)) (frame payload @ rest)"
    using R1 by simp
  from TFramedTransport_readFrame_frame[OF assms(3) R1' assms(6)] obtain t2 where
    f2: "TFramedTransport_readFrame T (?st1\<lparr>f_rbuf := BufferIO_new []\<rparr>)
           = (Inr (), ?st1\<lparr>f_rbuf := BufferIO_new []\<rparr>\<lparr>f_trans := t2, f_rbuf := BufferIO_new payload\<rparr>)"
    and R2: "R t2 rest" by auto
  have rd3: "BufferIO_read sz2 (BufferIO_new payload) =
     (take (nat sz2) payload, \<lparr>getvalue = payload, pos = min (nat sz2) (length payload)\<rparr>)"
    using assms(7) by (intro BufferIO_read_new) simp
  let ?st2 = "st\<lparr>f_trans := t2, f_rbuf := \<lparr>getvalue = payload, pos = min (nat sz2) (length payload)\<rparr>\<rparr>"
  have read2: "TFramedTransport_read T sz2 ?st1 = (Inr (take (nat sz2) payload), ?st2)"
    using f2 by (simp add: TFramedTransport_read_def rd1 rd3)
  have "R (f_trans ?st1) (frame payload @ rest)" "R (f_trans ?st2) rest"
    using R1 R2 by simp_all
  with read1 read2 have "\<exists>st1 st2. TFramedTransport_read T sz1 st = (Inr [], st1) \<and>
           R (f_trans st1) (frame payload @ rest) \<and>
           TFramedTransport_read T sz2 st1 = (Inr (take (nat sz2) payload), st2) \<and>
           R (f_trans st2) rest"
    by blast
  with wr show ?thesis by blast
qed

theorem TFramedTransport_empty_frame_witness:
  "snd (f_trans (snd (TFramedTransport_flush (traced TMemoryBuffer_transport)
          (TFramedTransport_init (TMemoryBuffer_init None 0, []))))) = [Write [0, 0, 0, 0], Flush] \<and>
   (\<exists>st1 st2.
      TFramedTransport_read TMemoryBuffer_transport 5
          (TFramedTransport_init (TMemoryBuffer_init (Some [0, 0, 0, 0, 0, 0, 0, 2, 7, 8]) 0))
        = (Inr [], st1) \<and>
      TMemoryBuffer_pending (f_trans st1) [0, 0, 0, 2, 7, 8] \<and>
      TFramedTransport_read TMemoryBuffer_transport 5 st1 = (Inr [7, 8], st2) \<and>
      TMemoryBuffer_pending (f_trans st2) [])"
proof -
  let ?stw = "TFramedTransport_init (TMemoryBuffer_init None 0, [] :: call list)"
  let ?st = "TFramedTransport_init (TMemoryBuffer_init (Some [0, 0, 0, 0, 0, 0, 0, 2, 7, 8]) 0)"
  have h1: "f_wbuf ?stw = BufferIO_new []" by (simp add: TFramedTransport_init_def)
  have h2: "f_trans ?stw = (TMemoryBuffer_init None 0, [])" by (simp add: TFramedTransport_init_def)
  have h3: "byte_source TMemoryBuffer_transport TMemoryBuffer_pending"
    by (rule TMemoryBuffer_byte_source)
  have h4: "TMemoryBuffer_pending (f_trans ?st) ([0, 0, 0, 0] @ frame [7, 8] @ [])"
    by (simp add: TFramedTransport_init_def TMemoryBuffer_pending_def TMemoryBuffer_init_def
        BufferIO_new_def frame_def be32_def)
  have h5: "length (getvalue (f_rbuf ?st)) \<le> pos (f_rbuf ?st)"
    by (simp add: TFramedTransport_init_def BufferIO_new_def)
  have h6: "length [7, 8 :: byte] < 2147483648" by simp
  have h7: "(0::int) < 5" by simp
  have w: "fst (t_write TMemoryBuffer_transport [0, 0, 0, 0] (TMemoryBuffer_init None 0)) = Inr ()"
    by (simp add: TMemoryBuffer_transport_def TMemoryBuffer_write_def TMemoryBuffer_init_def
        BufferIO_write_def BufferIO_new_def)
  show ?thesis
    using TFramedTransport_empty_frame[OF h1 h2 h3 h4 h5 h6 h7, of TMemoryBuffer_transport 5] w
    by (simp add: frame_def be32_def)
qed

subsection \<open>\<^verbatim>\<open>cstringio_refill\<close>\<close>

text \<open>
  Claim C10. When the prefix has at least \<open>reqlen\<close> bytes, the refill of a framed transport
  returns at once: the inner transport is in the state it was in (no read was made on it),
  the write buffer is untouched, and the read buffer is a new buffer holding exactly the
  prefix, at position 0. Whatever the old read buffer held, consumed or not, is in the
  new one only as far as it is in the prefix.
\<close>

theorem TFramedTransport_cstringio_refill_enough:
  assumes "reqlen \<le> int (length prefix)"
  shows "TFramedTransport_cstringio_refill T prefix reqlen st =
           Some (Inr (BufferIO_new prefix), st\<lparr>f_rbuf := BufferIO_new prefix\<rparr>)"
  using assms by (subst TFramedTransport_cstringio_refill.simps) simp

theorem TFramedTransport_cstringio_refill_enough_witness:
  "(2::int) \<le> int (length [1, 2, 3 :: byte]) \<and>
   TFramedTransport_cstringio_refill TMemoryBuffer_transport [1, 2, 3] 2
       \<lparr>f_trans = TMemoryBuffer_init (Some [9, 9]) 0,
        f_rbuf = \<lparr>getvalue = [1, 2, 3, 4, 5], pos = 3\<rparr>, f_wbuf = BufferIO_new []\<rparr>
     = Some (Inr (BufferIO_new [1, 2, 3]),
         \<lparr>f_trans = TMemoryBuffer_init (Some [9, 9]) 0,
          f_rbuf = BufferIO_new [1, 2, 3], f_wbuf = BufferIO_new []\<rparr>)"
proof -
  have h: "(2::int) \<le> int (length [1, 2, 3 :: byte])" by simp
  show ?thesis
    using h TFramedTransport_cstringio_refill_enough[OF h, of TMemoryBuffer_transport
        "\<lparr>f_trans = TMemoryBuffer_init (Some [9, 9]) 0,
          f_rbuf = \<lparr>getvalue = [1, 2, 3, 4, 5], pos = 3\<rparr>, f_wbuf = BufferIO_new []\<rparr>"]
    by simp
qed

lemma TFramedTransport_refill_spec:
  assumes src: "byte_source T R" and c: "cut_off tail"
  shows "\<forall>f \<in> set frames. length f < 2147483648 \<Longrightarrow>
     R (f_trans st) (concat (map frame frames) @ tail) \<Longrightarrow>
     (case spec_refill prefix reqlen frames of
        Inr (buf, rest) \<Rightarrow>
          (\<exists>st'. TFramedTransport_cstringio_refill T prefix reqlen st
                   = Some (Inr (BufferIO_new buf), st') \<and>
                 f_rbuf st' = BufferIO_new buf \<and> f_wbuf st' = f_wbuf st \<and>
                 R (f_trans st') (concat (map frame rest) @ tail))
      | Inl e \<Rightarrow>
          e = EOFError \<and>
          (\<exists>st'. TFramedTransport_cstringio_refill T prefix reqlen st = Some (Inl EOFError, st')))"
proof (induction frames arbitrary: prefix st)
  case Nil
  show ?case
  proof (cases "reqlen \<le> int (length prefix)")
    case True
    then have "TFramedTransport_cstringio_refill T prefix reqlen st =
        Some (Inr (BufferIO_new prefix), st\<lparr>f_rbuf := BufferIO_new prefix\<rparr>)"
      by (subst TFramedTransport_cstringio_refill.simps) simp
    with True Nil.prems show ?thesis by simp
  next
    case False
    from Nil.prems have R: "R (f_trans st) tail" by simp
    from TFramedTransport_readFrame_cut_off[OF src R c] obtain st' where
      "TFramedTransport_readFrame T st = (Inl EOFError, st')" by blast
    with False have "TFramedTransport_cstringio_refill T prefix reqlen st = Some (Inl EOFError, st')"
      by (subst TFramedTransport_cstringio_refill.simps) simp
    with False show ?thesis by simp
  qed
next
  case (Cons f fs)
  show ?case
  proof (cases "reqlen \<le> int (length prefix)")
    case True
    then have "TFramedTransport_cstringio_refill T prefix reqlen st =
        Some (Inr (BufferIO_new prefix), st\<lparr>f_rbuf := BufferIO_new prefix\<rparr>)"
      by (subst TFramedTransport_cstringio_refill.simps) simp
    with True Cons.prems show ?thesis by simp
  next
    case False
    from Cons.prems have R: "R (f_trans st) (frame f @ (concat (map frame fs) @ tail))"
      and lf: "length f < 2147483648" and lfs: "\<forall>f \<in> set fs. length f < 2147483648"
      by simp_all
    from TFramedTransport_readFrame_frame[OF src R lf] obtain t' where
      rf: "TFramedTransport_readFrame T st = (Inr (), st\<lparr>f_trans := t', f_rbuf := BufferIO_new f\<rparr>)"
      and R': "R t' (concat (map frame fs) @ tail)" by blast
    let ?st1 = "st\<lparr>f_trans := t', f_rbuf := BufferIO_new f\<rparr>"
    have unf: "TFramedTransport_cstringio_refill T prefix reqlen st =
        TFramedTransport_cstringio_refill T (prefix @ f) reqlen ?st1"
      using False rf
      by (subst TFramedTransport_cstringio_refill.simps) (simp add: BufferIO_new_def)
    have R1: "R (f_trans ?st1) (concat (map frame fs) @ tail)" using R' by simp
    from Cons.IH[OF lfs R1, of "prefix @ f"] False unf show ?thesis
      by (simp split: sum.splits prod.splits)
  qed
qed

lemma TSaslClientTransport_refill_spec:
  assumes src: "byte_source T R" and c: "cut_off tail"
  shows "\<forall>f \<in> set frames. length f < 2147483648 \<Longrightarrow>
     R (transport st) (concat (map frame frames) @ tail) \<Longrightarrow>
     (case spec_refill_unwrap S prefix reqlen frames (sasl st) of
        (Inr (buf, rest), a) \<Rightarrow>
          (\<exists>st'. TSaslClientTransport_cstringio_refill T S prefix reqlen st
                   = Some (Inr (BufferIO_new buf), st') \<and>
                 s_rbuf st' = BufferIO_new buf \<and> s_wbuf st' = s_wbuf st \<and> sasl st' = a \<and>
                 R (transport st') (concat (map frame rest) @ tail))
      | (Inl e, a) \<Rightarrow>
          (\<exists>st'. TSaslClientTransport_cstringio_refill T S prefix reqlen st = Some (Inl e, st') \<and>
                 sasl st' = a))"
proof (induction frames arbitrary: prefix st)
  case Nil
  show ?case
  proof (cases "reqlen \<le> int (length prefix)")
    case True
    then have "TSaslClientTransport_cstringio_refill T S prefix reqlen st =
        Some (Inr (BufferIO_new prefix), st\<lparr>s_rbuf := BufferIO_new prefix\<rparr>)"
      by (subst TSaslClientTransport_cstringio_refill.simps) simp
    with True Nil.prems show ?thesis by simp
  next
    case False
    from Nil.prems have R: "R (transport st) tail" by simp
    from TSaslClientTransport_read_frame_cut_off[OF src R c, of S] obtain st' where
      "TSaslClientTransport_read_frame T S st = (Inl EOFError, st')" "sasl st' = sasl st" by blast
    with False have "TSaslClientTransport_cstringio_refill T S prefix reqlen st = Some (Inl EOFError, st')
       \<and> sasl st' = sasl st"
      by (subst TSaslClientTransport_cstringio_refill.simps) simp
    with False show ?thesis by auto
  qed
next
  case (Cons f fs)
  show ?case
  proof (cases "reqlen \<le> int (length prefix)")
    case True
    then have "TSaslClientTransport_cstringio_refill T S prefix reqlen st =
        Some (Inr (BufferIO_new prefix), st\<lparr>s_rbuf := BufferIO_new prefix\<rparr>)"
      by (subst TSaslClientTransport_cstringio_refill.simps) simp
    with True Cons.prems show ?thesis by simp
  next
    case False
    from Cons.prems have R: "R (transport st) (frame f @ (concat (map frame fs) @ tail))"
      and lf: "length f < 2147483648" and lfs: "\<forall>f \<in> set fs. length f < 2147483648"
      by simp_all
    from TSaslClientTransport_read_frame_frame[OF src R lf, of S] obtain t' where
      rf: "TSaslClientTransport_read_frame T S st =
       (case sasl_unwrap S f (sasl st) of
          (Inl e, a) \<Rightarrow> (Inl e, st\<lparr>transport := t', sasl := a\<rparr>)
        | (Inr data, a) \<Rightarrow> (Inr (), st\<lparr>transport := t', sasl := a, s_rbuf := BufferIO_new data\<rparr>))"
      and R': "R t' (concat (map frame fs) @ tail)" by blast
    obtain r a where uw: "sasl_unwrap S f (sasl st) = (r, a)" by (cases "sasl_unwrap S f (sasl st)")
    show ?thesis
    proof (cases r)
      case (Inl e)
      with rf uw have "TSaslClientTransport_read_frame T S st = (Inl e, st\<lparr>transport := t', sasl := a\<rparr>)"
        by simp
      with False have "TSaslClientTransport_cstringio_refill T S prefix reqlen st =
          Some (Inl e, st\<lparr>transport := t', sasl := a\<rparr>)"
        by (subst TSaslClientTransport_cstringio_refill.simps) simp
      with False uw Inl show ?thesis by simp
    next
      case (Inr data)
      let ?st1 = "st\<lparr>transport := t', sasl := a, s_rbuf := BufferIO_new data\<rparr>"
      from Inr rf uw have rf': "TSaslClientTransport_read_frame T S st = (Inr (), ?st1)"
        by simp
      have unf: "TSaslClientTransport_cstringio_refill T S prefix reqlen st =
          TSaslClientTransport_cstringio_refill T S (prefix @ data) reqlen ?st1"
        using False rf'
        by (subst TSaslClientTransport_cstringio_refill.simps) (simp add: BufferIO_new_def)
      have R1: "R (transport ?st1) (concat (map frame fs) @ tail)" using R' by simp
      from Cons.IH[OF lfs R1, of "prefix @ data"] False unf uw Inr show ?thesis
        by (simp split: sum.splits prod.splits) blast
    qed
  qed
qed

text \<open>
  Claim C7. The inner transport holds the frames with payloads \<open>frames\<close>, each shorter than
  \<open>2\<^sup>3\<^sup>1\<close> bytes, and then ends, at a frame boundary or inside a frame (\<open>cut_off tail\<close>).
  Then \<^verbatim>\<open>cstringio_refill(prefix, reqlen)\<close> returns, and does what \<open>spec_refill\<close> says: it
  reads whole frames, appending each payload to the prefix, until the prefix has at least
  \<open>reqlen\<close> bytes; the accumulated bytes are the new read buffer, which it returns, and the
  frames not needed stay in the inner transport. If the stream ends before, it raises
  \<^verbatim>\<open>EOFError\<close>. The same holds for \<^verbatim>\<open>TSaslClientTransport\<close> with \<open>spec_refill_unwrap\<close>,
  where each payload goes through the capability's \<^verbatim>\<open>unwrap\<close> first (an exception of
  \<^verbatim>\<open>unwrap\<close> is passed on).
\<close>

theorem cstringio_refill_reads_whole_frames:
  assumes "byte_source T R" and "cut_off tail" and "\<forall>f \<in> set frames. length f < 2147483648"
  shows "(R (f_trans st) (concat (map frame frames) @ tail) \<longrightarrow>
           (case spec_refill prefix reqlen frames of
              Inr (buf, rest) \<Rightarrow>
                (\<exists>st'. TFramedTransport_cstringio_refill T prefix reqlen st
                         = Some (Inr (BufferIO_new buf), st') \<and>
                       f_rbuf st' = BufferIO_new buf \<and> f_wbuf st' = f_wbuf st \<and>
                       R (f_trans st') (concat (map frame rest) @ tail))
            | Inl e \<Rightarrow>
                e = EOFError \<and>
                (\<exists>st'. TFramedTransport_cstringio_refill T prefix reqlen st
                         = Some (Inl EOFError, st')))) \<and>
         (R (transport sa) (concat (map frame frames) @ tail) \<longrightarrow>
           (case spec_refill_unwrap S prefix reqlen frames (sasl sa) of
              (Inr (buf, rest), a) \<Rightarrow>
                (\<exists>sa'. TSaslClientTransport_cstringio_refill T S prefix reqlen sa
                         = Some (Inr (BufferIO_new buf), sa') \<and>
                       s_rbuf sa' = BufferIO_new buf \<and> s_wbuf sa' = s_wbuf sa \<and> sasl sa' = a \<and>
                       R (transport sa') (concat (map frame rest) @ tail))
            | (Inl e, a) \<Rightarrow>
                (\<exists>sa'. TSaslClientTransport_cstringio_refill T S prefix reqlen sa
                         = Some (Inl e, sa') \<and> sasl sa' = a)))"
proof (intro conjI impI)
  assume "R (f_trans st) (concat (map frame frames) @ tail)"
  from TFramedTransport_refill_spec[OF assms(1,2,3) this]
  show "case spec_refill prefix reqlen frames of
              Inr (buf, rest) \<Rightarrow>
                (\<exists>st'. TFramedTransport_cstringio_refill T prefix reqlen st
                         = Some (Inr (BufferIO_new buf), st') \<and>
                       f_rbuf st' = BufferIO_new buf \<and> f_wbuf st' = f_wbuf st \<and>
                       R (f_trans st') (concat (map frame rest) @ tail))
            | Inl e \<Rightarrow>
                e = EOFError \<and>
                (\<exists>st'. TFramedTransport_cstringio_refill T prefix reqlen st
                         = Some (Inl EOFError, st'))" .
next
  assume "R (transport sa) (concat (map frame frames) @ tail)"
  from TSaslClientTransport_refill_spec[OF assms(1,2,3) this]
  show "case spec_refill_unwrap S prefix reqlen frames (sasl sa) of
              (Inr (buf, rest), a) \<Rightarrow>
                (\<exists>sa'. TSaslClientTransport_cstringio_refill T S prefix reqlen sa
                         = Some (Inr (BufferIO_new buf), sa') \<and>
                       s_rbuf sa' = BufferIO_new buf \<and> s_wbuf sa' = s_wbuf sa \<and> sasl sa' = a \<and>
                       R (transport sa') (concat (map frame rest) @ tail))
            | (Inl e, a) \<Rightarrow>
                (\<exists>sa'. TSaslClientTransport_cstringio_refill T S prefix reqlen sa
                         = Some (Inl e, sa') \<and> sasl sa' = a)" .
qed

theorem cstringio_refill_reads_whole_frames_witness:
  "byte_source TMemoryBuffer_transport TMemoryBuffer_pending \<and> cut_off [] \<and>
   list_all (\<lambda>f. length f < 2147483648) [[1, 2], [3 :: byte]] \<and>
   (\<exists>st'. TFramedTransport_cstringio_refill TMemoryBuffer_transport [9] 3
            (TFramedTransport_init (TMemoryBuffer_init (Some [0, 0, 0, 2, 1, 2, 0, 0, 0, 1, 3]) 0))
             = Some (Inr (BufferIO_new [9, 1, 2]), st') \<and>
           f_rbuf st' = BufferIO_new [9, 1, 2] \<and>
           TMemoryBuffer_pending (f_trans st') [0, 0, 0, 1, 3]) \<and>
   (\<exists>st'. TFramedTransport_cstringio_refill TMemoryBuffer_transport [9] 5
            (TFramedTransport_init (TMemoryBuffer_init (Some [0, 0, 0, 2, 1, 2, 0, 0, 0, 1, 3]) 0))
             = Some (Inl EOFError, st')) \<and>
   (\<exists>sa'. TSaslClientTransport_cstringio_refill TMemoryBuffer_transport plain_sasl [9] 3
            (TSaslClientTransport_init (TMemoryBuffer_init (Some [0, 0, 0, 2, 1, 2, 0, 0, 0, 1, 3]) 0) ())
             = Some (Inr (BufferIO_new [9, 1, 2]), sa') \<and>
           s_rbuf sa' = BufferIO_new [9, 1, 2])"
proof -
  let ?v = "[0, 0, 0, 2, 1, 2, 0, 0, 0, 1, 3] :: bytes"
  have h1: "byte_source TMemoryBuffer_transport TMemoryBuffer_pending"
    by (rule TMemoryBuffer_byte_source)
  have h2: "cut_off []" by (rule cut_off_Nil)
  have h3: "\<forall>f \<in> set [[1, 2], [3 :: byte]]. length f < 2147483648" by simp
  have v: "concat (map frame [[1, 2], [3]]) @ [] = ?v"
    by (simp add: frame_def be32_def)
  have R1: "TMemoryBuffer_pending (f_trans (TFramedTransport_init (TMemoryBuffer_init (Some ?v) 0)))
              (concat (map frame [[1, 2], [3]]) @ [])"
    unfolding v by (simp add: TFramedTransport_init_def TMemoryBuffer_pending_init)
  have R2: "TMemoryBuffer_pending
              (transport (TSaslClientTransport_init (TMemoryBuffer_init (Some ?v) 0) ()))
              (concat (map frame [[1, 2], [3]]) @ [])"
    unfolding v by (simp add: TSaslClientTransport_init_def TMemoryBuffer_pending_init)
  note th = cstringio_refill_reads_whole_frames[OF h1 h2 h3]
  have a: "\<exists>st'. TFramedTransport_cstringio_refill TMemoryBuffer_transport [9] 3
            (TFramedTransport_init (TMemoryBuffer_init (Some ?v) 0))
             = Some (Inr (BufferIO_new [9, 1, 2]), st') \<and>
           f_rbuf st' = BufferIO_new [9, 1, 2] \<and>
           TMemoryBuffer_pending (f_trans st') [0, 0, 0, 1, 3]"
    using th[where st = "TFramedTransport_init (TMemoryBuffer_init (Some ?v) 0)"
        and prefix = "[9]" and reqlen = 3, THEN conjunct1] R1
    by (simp add: frame_def be32_def) blast
  have b: "\<exists>st'. TFramedTransport_cstringio_refill TMemoryBuffer_transport [9] 5
            (TFramedTransport_init (TMemoryBuffer_init (Some ?v) 0))
             = Some (Inl EOFError, st')"
    using th[where st = "TFramedTransport_init (TMemoryBuffer_init (Some ?v) 0)"
        and prefix = "[9]" and reqlen = 5, THEN conjunct1] R1
    by simp
  have c: "\<exists>sa'. TSaslClientTransport_cstringio_refill TMemoryBuffer_transport plain_sasl [9] 3
            (TSaslClientTransport_init (TMemoryBuffer_init (Some ?v) 0) ())
             = Some (Inr (BufferIO_new [9, 1, 2]), sa') \<and>
           s_rbuf sa' = BufferIO_new [9, 1, 2]"
    using th[where sa = "TSaslClientTransport_init (TMemoryBuffer_init (Some ?v) 0) ()"
        and S = plain_sasl and prefix = "[9]" and reqlen = 3, THEN conjunct2] R2
    by (simp add: plain_sasl_def TSaslClientTransport_init_def) blast
  have h3': "list_all (\<lambda>f. length f < 2147483648) [[1, 2], [3 :: byte]]" by simp
  from h1 h2 h3' a b c show ?thesis by blast
qed

subsection \<open>\<^verbatim>\<open>TSaslClientTransport\<close>: the handshake\<close>

lemma extends_refl: "extends_by_handshake log log"
  by (simp add: extends_by_handshake_def)

lemma extends_trans:
  "extends_by_handshake l1 l2 \<Longrightarrow> extends_by_handshake l2 l3 \<Longrightarrow> extends_by_handshake l1 l3"
  unfolding extends_by_handshake_def by auto

lemma extends_snoc:
  "handshake_call c \<Longrightarrow> extends_by_handshake log (log @ [c])"
  by (simp add: extends_by_handshake_def)

lemma readAll_loop_traced:
  "extends_by_handshake (snd s) (snd (snd (readAll_loop (traced T) sz have buff s)))"
proof (induction "traced T" sz "have" buff s rule: readAll_loop.induct)
  case (1 sz "have" buff s)
  obtain s0 log where s: "s = (s0, log)" by (cases s)
  obtain r s1 where rd: "t_read T (sz - have) s0 = (r, s1)" by (cases "t_read T (sz - have) s0")
  have trd: "t_read (traced T) (sz - have) s = (r, (s1, log @ [Read (sz - have)]))"
    using s rd by (simp add: traced_def)
  have step: "extends_by_handshake (snd s) (log @ [Read (sz - have)])"
    using s by (simp add: extends_snoc)
  show ?case
  proof (cases "have < sz")
    case False
    then show ?thesis by (simp add: readAll_loop.simps extends_refl)
  next
    case True
    show ?thesis
    proof (cases r)
      case (Inl e)
      with True trd step show ?thesis by (simp add: readAll_loop.simps)
    next
      case (Inr chunk)
      show ?thesis
      proof (cases "length chunk = 0")
        case True
        with \<open>have < sz\<close> trd step Inr show ?thesis by (simp add: readAll_loop.simps)
      next
        case False
        from "1.hyps"[OF \<open>have < sz\<close> trd[symmetric, unfolded Inr] refl False]
        have "extends_by_handshake (log @ [Read (sz - have)])
            (snd (snd (readAll_loop (traced T) sz (have + int (length chunk)) (buff @ chunk)
               (s1, log @ [Read (sz - have)]))))" by simp
        with step have "extends_by_handshake (snd s)
            (snd (snd (readAll_loop (traced T) sz (have + int (length chunk)) (buff @ chunk)
               (s1, log @ [Read (sz - have)]))))" by (rule extends_trans)
        moreover have "readAll_loop (traced T) sz have buff s =
           readAll_loop (traced T) sz (have + int (length chunk)) (buff @ chunk)
               (s1, log @ [Read (sz - have)])"
          using \<open>have < sz\<close> trd Inr False by (subst readAll_loop.simps) simp
        ultimately show ?thesis by simp
      qed
    qed
  qed
qed

lemma readAll_traced:
  "extends_by_handshake (snd s) (snd (snd (readAll (traced T) n s)))"
  by (simp add: readAll_def readAll_loop_traced)

lemma handshake_call_message:
  assumes "status = START \<or> status = OK" and "pack_BI status (int (length body)) = Inr header"
  shows "handshake_call (Write (header @ body))"
proof -
  from assms(2) have n: "0 \<le> int (length body)" "int (length body) < 4294967296"
    and h: "header = word_of_int status # be32 (int (length body))"
    by (auto simp: pack_BI_def split: if_splits)
  have "(case be32 (int (length body)) of [a, b, c, d] \<Rightarrow> be32_val a b c d | _ \<Rightarrow> -1)
          = int (length body)"
    using n by (rule be32_val_be32)
  moreover have "uint (word_of_int status :: byte) = status"
    using assms(1) by (auto simp: START_def OK_def)
  ultimately show ?thesis using assms(1) h
    by (auto simp: be32_def)
qed

lemma send_sasl_msg_traced:
  assumes "status = START \<or> status = OK"
  shows "extends_by_handshake (snd (transport st))
           (snd (transport (snd (send_sasl_msg (traced T) status body st)))) \<and>
         s_wbuf (snd (send_sasl_msg (traced T) status body st)) = s_wbuf st"
proof (cases "pack_BI status (int (length body))")
  case (Inl e)
  then show ?thesis by (simp add: send_sasl_msg_def extends_refl)
next
  case (Inr header)
  obtain s log where t: "transport st = (s, log)" by (cases "transport st")
  have hc: "handshake_call (Write (header @ body))"
    using assms Inr by (rule handshake_call_message)
  have 1: "extends_by_handshake log (log @ [Write (header @ body)])"
    using hc by (rule extends_snoc)
  have 2: "extends_by_handshake log (log @ [Write (header @ body), Flush])"
    using hc by (simp add: extends_by_handshake_def)
  show ?thesis
    using Inr t 1 2
    by (simp add: send_sasl_msg_def traced_def split: prod.splits sum.splits)
qed

lemma recv_sasl_msg_traced:
  "extends_by_handshake (snd (transport st))
           (snd (transport (snd (recv_sasl_msg (traced T) st)))) \<and>
   s_wbuf (snd (recv_sasl_msg (traced T) st)) = s_wbuf st"
proof -
  obtain r1 t1 where a1: "readAll (traced T) 5 (transport st) = (r1, t1)"
    by (cases "readAll (traced T) 5 (transport st)")
  have e1: "extends_by_handshake (snd (transport st)) (snd t1)"
    using readAll_traced[of "transport st" T 5] a1 by simp
  have e2: "extends_by_handshake (snd (transport st)) (snd (snd (readAll (traced T) n t1)))" for n
    using e1 readAll_traced[of t1 T n] by (rule extends_trans)
  show ?thesis
    using a1 e1 e2
    by (simp add: recv_sasl_msg_def split: prod.splits sum.splits) (metis snd_conv)
qed

lemma open_start_traced:
  "extends_by_handshake (snd (transport st))
           (snd (transport (snd (TSaslClientTransport_open_start (traced T) S st)))) \<and>
   s_wbuf (snd (TSaslClientTransport_open_start (traced T) S st)) = s_wbuf st"
proof -
  obtain s log where t: "transport st = (s, log)" by (cases "transport st")
  obtain r0 s0 where io: "t_isOpen T s = (r0, s0)" by (cases "t_isOpen T s")
  have tio: "t_isOpen (traced T) (transport st) = (r0, (s0, log @ [IsOpen]))"
    using t io by (simp add: traced_def)
  have e0: "extends_by_handshake log (log @ [IsOpen])" by (simp add: extends_snoc)
  show ?thesis
  proof (cases r0)
    case (Inl e)
    with tio t e0 show ?thesis by (simp add: TSaslClientTransport_open_start_def)
  next
    case (Inr is_open)
    obtain r1 t1 where op: "(if \<not> is_open then t_open (traced T) (s0, log @ [IsOpen])
                             else (Inr (), (s0, log @ [IsOpen]))) = (r1, t1)"
      by (cases "if \<not> is_open then t_open (traced T) (s0, log @ [IsOpen])
                 else (Inr (), (s0, log @ [IsOpen]))")
    have "extends_by_handshake (log @ [IsOpen]) (snd t1)"
      using op extends_snoc[of Open "log @ [IsOpen]"]
      by (auto simp: traced_def extends_refl split: if_splits prod.splits)
    with e0 have e1: "extends_by_handshake log (snd t1)" by (rule extends_trans)
    show ?thesis
    proof (cases r1)
      case (Inl e)
      with tio t e1 op \<open>r0 = Inr is_open\<close> show ?thesis
        by (simp add: TSaslClientTransport_open_start_def)
    next
      case (Inr u)
      let ?st1 = "st\<lparr>transport := t1\<rparr>"
      obtain r2 st2 where s1: "send_sasl_msg (traced T) START (sasl_mechanism S (sasl ?st1)) ?st1 = (r2, st2)"
        by (cases "send_sasl_msg (traced T) START (sasl_mechanism S (sasl ?st1)) ?st1")
      from send_sasl_msg_traced[of START ?st1 T "sasl_mechanism S (sasl ?st1)"] s1
      have "extends_by_handshake (snd t1) (snd (transport st2))" and w2: "s_wbuf st2 = s_wbuf st"
        by simp_all
      with e1 have e2: "extends_by_handshake log (snd (transport st2))" by (blast intro: extends_trans)
      have start: "TSaslClientTransport_open_start (traced T) S st =
          (case r2 of Inl e \<Rightarrow> (Inl e, st2)
           | Inr u \<Rightarrow> (case sasl_process S None (sasl st2) of
                          (Inl e, a) \<Rightarrow> (Inl e, st2\<lparr>sasl := a\<rparr>)
                        | (Inr token, a) \<Rightarrow> send_sasl_msg (traced T) OK token (st2\<lparr>sasl := a\<rparr>)))"
        using tio \<open>r0 = Inr is_open\<close> op Inr s1
        by (simp add: TSaslClientTransport_open_start_def Let_def split: sum.splits)
      show ?thesis
      proof (cases r2)
        case (Inl e)
        with start e2 w2 t show ?thesis by simp
      next
        case (Inr u2)
        obtain r3 a where pr: "sasl_process S None (sasl st2) = (r3, a)"
          by (cases "sasl_process S None (sasl st2)")
        show ?thesis
        proof (cases r3)
          case (Inl e)
          with start Inr pr e2 w2 t show ?thesis by simp
        next
          case (Inr token)
          from send_sasl_msg_traced[of OK "st2\<lparr>sasl := a\<rparr>" T token]
          have "extends_by_handshake (snd (transport st2))
                  (snd (transport (snd (send_sasl_msg (traced T) OK token (st2\<lparr>sasl := a\<rparr>)))))"
            and "s_wbuf (snd (send_sasl_msg (traced T) OK token (st2\<lparr>sasl := a\<rparr>))) = s_wbuf st2"
            by simp_all
          with e2 w2 have "extends_by_handshake log
                  (snd (transport (snd (send_sasl_msg (traced T) OK token (st2\<lparr>sasl := a\<rparr>)))))"
            and "s_wbuf (snd (send_sasl_msg (traced T) OK token (st2\<lparr>sasl := a\<rparr>))) = s_wbuf st"
            by (blast intro: extends_trans, simp)
          with start \<open>r2 = Inr u2\<close> pr Inr t show ?thesis by simp
        qed
      qed
    qed
  qed
qed

lemma handshake_rounds_traced:
  "handshake_rounds (traced T) S st st' \<Longrightarrow>
   extends_by_handshake (snd (transport st)) (snd (transport st')) \<and> s_wbuf st' = s_wbuf st"
proof (induction rule: handshake_rounds.induct)
  case (rounds_none st)
  show ?case by (simp add: extends_refl)
next
  case (rounds_OK st challenge st1 response a st2 st3)
  from recv_sasl_msg_traced[of st T] rounds_OK.hyps(1)
  have e1: "extends_by_handshake (snd (transport st)) (snd (transport st1))"
    and w1: "s_wbuf st1 = s_wbuf st" by simp_all
  from send_sasl_msg_traced[of OK "st1\<lparr>sasl := a\<rparr>" T response] rounds_OK.hyps(3)
  have e2: "extends_by_handshake (snd (transport st1)) (snd (transport st2))"
    and w2: "s_wbuf st2 = s_wbuf st1" by simp_all
  from rounds_OK.IH have e3: "extends_by_handshake (snd (transport st2)) (snd (transport st3))"
    and w3: "s_wbuf st3 = s_wbuf st2" by simp_all
  from e1 e2 e3 w1 w2 w3 show ?case by (auto intro: extends_trans)
qed

lemma open_loop_rounds:
  "handshake_rounds T S st st' \<Longrightarrow>
   TSaslClientTransport_open_loop T S st = TSaslClientTransport_open_loop T S st'"
proof (induction rule: handshake_rounds.induct)
  case (rounds_none st)
  show ?case by simp
next
  case (rounds_OK st challenge st1 response a st2 st3)
  have "TSaslClientTransport_open_loop T S st = TSaslClientTransport_open_loop T S st2"
    using rounds_OK.hyps(1,2,3) by (subst TSaslClientTransport_open_loop.simps) simp
  with rounds_OK.IH show ?case by simp
qed

text \<open>
  Claim C4. \<^verbatim>\<open>open()\<close> has sent its two first messages, the loop has run any number of
  rounds with status \<^verbatim>\<open>OK\<close>, and the next message received has a status that is not
  \<^verbatim>\<open>OK\<close> and, if it is \<^verbatim>\<open>COMPLETE\<close>, the capability reports that the negotiation is
  not complete (so: \<^verbatim>\<open>BAD\<close>, \<^verbatim>\<open>ERROR\<close>, any other status, or a premature \<^verbatim>\<open>COMPLETE\<close>).
  Then \<^verbatim>\<open>open()\<close> returns by raising \<^verbatim>\<open>TTransportException\<close> of type \<^verbatim>\<open>NOT_OPEN\<close>, in the
  state in which the message was received: nothing is sent after it. No data frame has
  been sent: the write buffer is what it was before \<^verbatim>\<open>open()\<close>, and every \<^verbatim>\<open>write\<close> call
  that the inner transport has received since is a handshake message.
\<close>

theorem TSaslClientTransport_open_NOT_OPEN:
  assumes "TSaslClientTransport_open_start (traced T) S st0 = (Inr (), st1)"
    and "handshake_rounds (traced T) S st1 st"
    and "recv_sasl_msg (traced T) st = (Inr (status, challenge), st')"
    and "status \<noteq> OK \<and> (status = COMPLETE \<longrightarrow> \<not> sasl_complete S (sasl st'))"
  shows "TSaslClientTransport_open (traced T) S st0
           = Some (Inl (TTransportException NOT_OPEN), st') \<and>
         s_wbuf st' = s_wbuf st0 \<and>
         extends_by_handshake (snd (transport st0)) (snd (transport st'))"
proof -
  have "TSaslClientTransport_open (traced T) S st0 = TSaslClientTransport_open_loop (traced T) S st1"
    using assms(1) by (simp add: TSaslClientTransport_open_def)
  also have "\<dots> = TSaslClientTransport_open_loop (traced T) S st"
    using assms(2) by (rule open_loop_rounds)
  also have "\<dots> = Some (Inl (TTransportException NOT_OPEN), st')"
    using assms(3,4) by (subst TSaslClientTransport_open_loop.simps) auto
  finally have res: "TSaslClientTransport_open (traced T) S st0
           = Some (Inl (TTransportException NOT_OPEN), st')" .
  from open_start_traced[of st0 T S] assms(1)
  have e1: "extends_by_handshake (snd (transport st0)) (snd (transport st1))"
    and w1: "s_wbuf st1 = s_wbuf st0" by simp_all
  from handshake_rounds_traced[OF assms(2)]
  have e2: "extends_by_handshake (snd (transport st1)) (snd (transport st))"
    and w2: "s_wbuf st = s_wbuf st1" by simp_all
  from recv_sasl_msg_traced[of st T] assms(3)
  have e3: "extends_by_handshake (snd (transport st)) (snd (transport st'))"
    and w3: "s_wbuf st' = s_wbuf st" by simp_all
  from e1 e2 e3 have "extends_by_handshake (snd (transport st0)) (snd (transport st'))"
    by (blast intro: extends_trans)
  with res w1 w2 w3 show ?thesis by simp
qed

text \<open>
  Two runs on a \<^verbatim>\<open>TMemoryBuffer\<close>, whose \<^verbatim>\<open>write\<close> stores at the position the
  reading has reached (the first ten bytes of the value make room for the two first
  messages). In the first the peer answers \<^verbatim>\<open>BAD\<close> at once. In the second it answers
  \<^verbatim>\<open>OK\<close> with a challenge, and then \<^verbatim>\<open>COMPLETE\<close>, while the capability is not
  complete.
\<close>

theorem TSaslClientTransport_open_NOT_OPEN_witness:
  "(\<exists>st'. TSaslClientTransport_open (traced TMemoryBuffer_transport) plain_sasl
            (TSaslClientTransport_init
               (TMemoryBuffer_init (Some [0, 0, 0, 0, 0, 0, 0, 0, 0, 0, 3, 0, 0, 0, 0]) 0, []) ())
          = Some (Inl (TTransportException NOT_OPEN), st') \<and>
         s_wbuf st' = BufferIO_new [] \<and>
         snd (transport st') =
           [IsOpen, Write [1, 0, 0, 0, 0], Flush, Write [2, 0, 0, 0, 0], Flush, Read 5]) \<and>
   (\<exists>st'. TSaslClientTransport_open (traced TMemoryBuffer_transport) plain_sasl
            (TSaslClientTransport_init
               (TMemoryBuffer_init
                  (Some [0, 0, 0, 0, 0, 0, 0, 0, 0, 0, 2, 0, 0, 0, 1, 7, 0, 0, 0, 0, 0, 5, 0, 0, 0, 0]) 0,
                []) ())
          = Some (Inl (TTransportException NOT_OPEN), st') \<and>
         s_wbuf st' = BufferIO_new [] \<and>
         snd (transport st') =
           [IsOpen, Write [1, 0, 0, 0, 0], Flush, Write [2, 0, 0, 0, 0], Flush,
            Read 5, Read 1, Write [2, 0, 0, 0, 0], Flush, Read 5])"
proof -
  have first: "\<exists>st'. TSaslClientTransport_open (traced TMemoryBuffer_transport) plain_sasl
            (TSaslClientTransport_init
               (TMemoryBuffer_init (Some [0, 0, 0, 0, 0, 0, 0, 0, 0, 0, 3, 0, 0, 0, 0]) 0, []) ())
          = Some (Inl (TTransportException NOT_OPEN), st') \<and>
         s_wbuf st' = BufferIO_new [] \<and>
         snd (transport st') =
           [IsOpen, Write [1, 0, 0, 0, 0], Flush, Write [2, 0, 0, 0, 0], Flush, Read 5]"
  proof -
  let ?T = "traced TMemoryBuffer_transport"
  let ?st0 = "TSaslClientTransport_init
               (TMemoryBuffer_init (Some [0, 0, 0, 0, 0, 0, 0, 0, 0, 0, 3, 0, 0, 0, 0]) 0,
                [] :: call list) ()"
  let ?st1 = "\<lparr>transport =
      (\<lparr>buffer = \<lparr>getvalue = [1, 0, 0, 0, 0, 2, 0, 0, 0, 0, 3, 0, 0, 0, 0], pos = 10\<rparr>,
        closed = False\<rparr>,
       [IsOpen, Write [1, 0, 0, 0, 0], Flush, Write [2, 0, 0, 0, 0], Flush]),
      sasl = (), s_wbuf = BufferIO_new [], s_rbuf = BufferIO_new []\<rparr>"
  let ?st' = "\<lparr>transport =
      (\<lparr>buffer = \<lparr>getvalue = [1, 0, 0, 0, 0, 2, 0, 0, 0, 0, 3, 0, 0, 0, 0], pos = 15\<rparr>,
        closed = False\<rparr>,
       [IsOpen, Write [1, 0, 0, 0, 0], Flush, Write [2, 0, 0, 0, 0], Flush, Read 5]),
      sasl = (), s_wbuf = BufferIO_new [], s_rbuf = BufferIO_new []\<rparr>"
  have h1: "TSaslClientTransport_open_start ?T plain_sasl ?st0 = (Inr (), ?st1)"
    by (simp add: TSaslClientTransport_open_start_def TSaslClientTransport_init_def
        send_sasl_msg_def plain_sasl_def pack_BI_def be32_def START_def OK_def traced_def
        TMemoryBuffer_transport_def TMemoryBuffer_isOpen_def TMemoryBuffer_write_def
        TMemoryBuffer_flush_def TMemoryBuffer_init_def BufferIO_write_def BufferIO_new_def Let_def)
  have h2: "handshake_rounds ?T plain_sasl ?st1 ?st1" by (rule rounds_none)
  have h3: "recv_sasl_msg ?T ?st1 = (Inr (3, []), ?st')"
    by (simp add: recv_sasl_msg_def readAll_def readAll_loop.simps unpack_BI_def be32_val_def
        traced_def TMemoryBuffer_transport_def TMemoryBuffer_read_def BufferIO_read_def
        BufferIO_new_def Let_def)
  have h4: "(3::int) \<noteq> OK \<and> ((3::int) = COMPLETE \<longrightarrow> \<not> sasl_complete plain_sasl (sasl ?st'))"
    by (simp add: OK_def COMPLETE_def)
  from TSaslClientTransport_open_NOT_OPEN[OF h1 h2 h3 h4]
  have "TSaslClientTransport_open ?T plain_sasl ?st0 = Some (Inl (TTransportException NOT_OPEN), ?st')"
    by simp
  then show ?thesis by simp
  qed
  have second: "\<exists>st'. TSaslClientTransport_open (traced TMemoryBuffer_transport) plain_sasl
            (TSaslClientTransport_init
               (TMemoryBuffer_init
                  (Some [0, 0, 0, 0, 0, 0, 0, 0, 0, 0, 2, 0, 0, 0, 1, 7, 0, 0, 0, 0, 0, 5, 0, 0, 0, 0]) 0,
                []) ())
          = Some (Inl (TTransportException NOT_OPEN), st') \<and>
         s_wbuf st' = BufferIO_new [] \<and>
         snd (transport st') =
           [IsOpen, Write [1, 0, 0, 0, 0], Flush, Write [2, 0, 0, 0, 0], Flush,
            Read 5, Read 1, Write [2, 0, 0, 0, 0], Flush, Read 5]"
  proof -
  let ?T = "traced TMemoryBuffer_transport"
  let ?st0 = "TSaslClientTransport_init
               (TMemoryBuffer_init
                  (Some [0, 0, 0, 0, 0, 0, 0, 0, 0, 0, 2, 0, 0, 0, 1, 7, 0, 0, 0, 0, 0, 5, 0, 0, 0, 0]) 0,
                [] :: call list) ()"
  let ?v1 = "[1, 0, 0, 0, 0, 2, 0, 0, 0, 0, 2, 0, 0, 0, 1, 7, 0, 0, 0, 0, 0, 5, 0, 0, 0, 0] :: bytes"
  let ?v2 = "[1, 0, 0, 0, 0, 2, 0, 0, 0, 0, 2, 0, 0, 0, 1, 7, 2, 0, 0, 0, 0, 5, 0, 0, 0, 0] :: bytes"
  let ?l1 = "[IsOpen, Write [1, 0, 0, 0, 0], Flush, Write [2, 0, 0, 0, 0], Flush]"
  let ?st1 = "\<lparr>transport = (\<lparr>buffer = \<lparr>getvalue = ?v1, pos = 10\<rparr>, closed = False\<rparr>, ?l1),
      sasl = (), s_wbuf = BufferIO_new [], s_rbuf = BufferIO_new []\<rparr>"
  let ?st2 = "\<lparr>transport = (\<lparr>buffer = \<lparr>getvalue = ?v1, pos = 16\<rparr>, closed = False\<rparr>,
                     ?l1 @ [Read 5, Read 1]),
      sasl = (), s_wbuf = BufferIO_new [], s_rbuf = BufferIO_new []\<rparr>"
  let ?st3 = "\<lparr>transport = (\<lparr>buffer = \<lparr>getvalue = ?v2, pos = 21\<rparr>, closed = False\<rparr>,
                     ?l1 @ [Read 5, Read 1, Write [2, 0, 0, 0, 0], Flush]),
      sasl = (), s_wbuf = BufferIO_new [], s_rbuf = BufferIO_new []\<rparr>"
  let ?st4 = "\<lparr>transport = (\<lparr>buffer = \<lparr>getvalue = ?v2, pos = 26\<rparr>, closed = False\<rparr>,
                     ?l1 @ [Read 5, Read 1, Write [2, 0, 0, 0, 0], Flush, Read 5]),
      sasl = (), s_wbuf = BufferIO_new [], s_rbuf = BufferIO_new []\<rparr>"
  have h1: "TSaslClientTransport_open_start ?T plain_sasl ?st0 = (Inr (), ?st1)"
    by (simp add: TSaslClientTransport_open_start_def TSaslClientTransport_init_def
        send_sasl_msg_def plain_sasl_def pack_BI_def be32_def START_def OK_def traced_def
        TMemoryBuffer_transport_def TMemoryBuffer_isOpen_def TMemoryBuffer_write_def
        TMemoryBuffer_flush_def TMemoryBuffer_init_def BufferIO_write_def BufferIO_new_def Let_def)
  have r1: "recv_sasl_msg ?T ?st1 = (Inr (OK, [7]), ?st2)"
    by (simp add: recv_sasl_msg_def readAll_def readAll_loop.simps unpack_BI_def be32_val_def
        traced_def TMemoryBuffer_transport_def TMemoryBuffer_read_def BufferIO_read_def
        BufferIO_new_def OK_def Let_def)
  have p1: "sasl_process plain_sasl (Some [7]) (sasl ?st2) = (Inr [], ())"
    by (simp add: plain_sasl_def)
  have s1: "send_sasl_msg ?T OK [] (?st2\<lparr>sasl := ()\<rparr>) = (Inr (), ?st3)"
    by (simp add: send_sasl_msg_def pack_BI_def be32_def OK_def traced_def
        TMemoryBuffer_transport_def TMemoryBuffer_write_def TMemoryBuffer_flush_def
        BufferIO_write_def BufferIO_new_def)
  have h2: "handshake_rounds ?T plain_sasl ?st1 ?st3"
    by (rule rounds_OK[OF r1 p1 s1 rounds_none])
  have h3: "recv_sasl_msg ?T ?st3 = (Inr (5, []), ?st4)"
    by (simp add: recv_sasl_msg_def readAll_def readAll_loop.simps unpack_BI_def be32_val_def
        traced_def TMemoryBuffer_transport_def TMemoryBuffer_read_def BufferIO_read_def
        BufferIO_new_def Let_def)
  have h4: "(5::int) \<noteq> OK \<and> ((5::int) = COMPLETE \<longrightarrow> \<not> sasl_complete plain_sasl (sasl ?st4))"
    by (simp add: OK_def COMPLETE_def plain_sasl_def)
  from TSaslClientTransport_open_NOT_OPEN[OF h1 h2 h3 h4]
  have "TSaslClientTransport_open ?T plain_sasl ?st0 = Some (Inl (TTransportException NOT_OPEN), ?st4)"
    by simp
  then show ?thesis by simp
  qed
  from first second show ?thesis by (rule conjI)
qed

subsection \<open>\<^verbatim>\<open>TSaslClientTransport.flush\<close>\<close>

text \<open>
  Claim C5 is what \<^verbatim>\<open>flush()\<close> is written to do: wrap the write buffer, write the four-byte
  length and the wrapped payload to the inner transport, flush it, and reset the write
  buffer. The code does not get there. It joins the packed length and the payload with
  \<^verbatim>\<open>''.join\<close> (line 376), which raises \<^verbatim>\<open>TypeError\<close> for byte strings. So in every state
  \<^verbatim>\<open>flush()\<close> raises: the exception of \<^verbatim>\<open>wrap\<close> if it raises; \<^verbatim>\<open>struct.error\<close> if the wrapped
  payload has \<open>2\<^sup>3\<^sup>1\<close> bytes or more; \<^verbatim>\<open>TypeError\<close> in all other cases. The inner transport
  receives no call, and the write buffer is not reset: the state changes in the
  capability only.
\<close>

theorem TSaslClientTransport_flush_raises:
  "TSaslClientTransport_flush T S st =
     (case sasl_wrap S (getvalue (s_wbuf st)) (sasl st) of
        (Inl e, a) \<Rightarrow> (Inl e, st\<lparr>sasl := a\<rparr>)
      | (Inr encoded, a) \<Rightarrow>
          (if length encoded < 2147483648 then Inl TypeError else Inl struct_error,
           st\<lparr>sasl := a\<rparr>))"
  by (rule TSaslClientTransport_flush_result)

text \<open>
  With the four bytes "ping" in the write buffer and a capability that wraps nothing:
  \<^verbatim>\<open>TypeError\<close>, nothing in the log of the inner transport, "ping" still buffered.
\<close>

theorem TSaslClientTransport_flush_raises_witness:
  "TSaslClientTransport_flush (traced TMemoryBuffer_transport) plain_sasl
     \<lparr>transport = (TMemoryBuffer_init None 0, []), sasl = (),
      s_wbuf = \<lparr>getvalue = [112, 105, 110, 103], pos = 4\<rparr>, s_rbuf = BufferIO_new []\<rparr>
   = (Inl TypeError,
      \<lparr>transport = (TMemoryBuffer_init None 0, []), sasl = (),
       s_wbuf = \<lparr>getvalue = [112, 105, 110, 103], pos = 4\<rparr>, s_rbuf = BufferIO_new []\<rparr>)"
  using TSaslClientTransport_flush_raises[of "traced TMemoryBuffer_transport" plain_sasl
      "\<lparr>transport = (TMemoryBuffer_init None 0, []), sasl = (),
        s_wbuf = \<lparr>getvalue = [112, 105, 110, 103], pos = 4\<rparr>, s_rbuf = BufferIO_new []\<rparr>"]
  by (simp add: plain_sasl_def)

subsection \<open>\<^verbatim>\<open>TFileObjectTransport.isOpen\<close>\<close>

text \<open>
  Claim C9. For the file-backed transport, \<^verbatim>\<open>isOpen()\<close> returns \<^verbatim>\<open>True\<close> in every state, for
  every wrapped stream object \<open>F\<close>: in the state \<open>f\<close> at hand, in the state that
  \<^verbatim>\<open>close()\<close> leaves (whether the stream's \<^verbatim>\<open>close\<close> returns or raises), and the call
  changes nothing.
\<close>

theorem TFileObjectTransport_isOpen_always_True:
  "TFileObjectTransport_isOpen f = (Inr True, f) \<and>
   fst (TFileObjectTransport_isOpen (snd (TFileObjectTransport_close F f))) = Inr True"
  by (simp add: TFileObjectTransport_isOpen_def)

end
